theory Spec2Isabelle
  imports Complex_Main
begin

section \<open>Text: JavaScript strings and the regular expressions of index.js\<close>

text \<open>
  A JavaScript string is embedded as a \<^typ>\<open>string\<close>, one \<^typ>\<open>char\<close> per code unit in the
  range U+0000..U+00FF (the copy tool writes ASCII). The character classes follow
  ECMAScript: \<open>\d\<close> is \<open>[0-9]\<close>; \<open>\s\<close> and \<open>trim\<close> use white space and line terminators
  (tab, LF, VT, FF, CR, space, NBSP in this range); \<open>.\<close> is any character but a line
  terminator (LF, CR in this range).
\<close>

definition isDigit :: "char \<Rightarrow> bool" where
  "isDigit c = (c \<in> set ''0123456789'')"

definition isSpace :: "char \<Rightarrow> bool" where
  "isSpace c = (c \<in> set [CHR 0x09, CHR 0x0A, CHR 0x0B, CHR 0x0C, CHR 0x0D, CHR 0x20, CHR 0xA0])"

definition isLineTerminator :: "char \<Rightarrow> bool" where
  "isLineTerminator c = (c \<in> set [CHR 0x0A, CHR 0x0D])"

definition isDot :: "char \<Rightarrow> bool" where
  "isDot c = (\<not> isLineTerminator c)"

definition isDigitOrPoint :: "char \<Rightarrow> bool" where
  "isDigitOrPoint c = (isDigit c \<or> c = CHR ''.'')"

definition isMGK :: "char \<Rightarrow> bool" where
  "isMGK c = (c \<in> set ''MGK'')"

text \<open>\<open>String.prototype.trim\<close>, \<open>substring(0, n)\<close> and \<open>endsWith\<close>.\<close>

definition trim :: "string \<Rightarrow> string" where
  "trim s = rev (dropWhile isSpace (rev (dropWhile isSpace s)))"

definition substring0 :: "nat \<Rightarrow> string \<Rightarrow> string" where
  "substring0 n s = take n s"

definition endsWith :: "string \<Rightarrow> string \<Rightarrow> bool" where
  "endsWith s suf = (length suf \<le> length s \<and> drop (length s - length suf) s = suf)"

text \<open>
  The regular expressions of the source are sequences of quantified character classes
  (a literal is a sequence of one-character classes), with one alternation that is only
  tested, never captured. \<open>re_match\<close> is the backtracking matcher at a fixed start: every
  quantifier is greedy, and on failure of the rest it gives characters back one at a
  time. It returns the text consumed by each item. \<open>re_search\<close> is the unanchored
  \<open>String.prototype.match\<close>: the leftmost start at which \<open>re_match\<close> succeeds.
\<close>

datatype quant = Once | Opt | Star | Plus

type_synonym item = "(char \<Rightarrow> bool) \<times> quant"

fun re_match :: "item list \<Rightarrow> string \<Rightarrow> string list option" where
  "re_match [] s = Some []"
| "re_match ((p, Once) # r) [] = None"
| "re_match ((p, Once) # r) (c # cs) =
     (if p c then map_option (\<lambda>gs. [c] # gs) (re_match r cs) else None)"
| "re_match ((p, Opt) # r) [] = map_option (\<lambda>gs. [] # gs) (re_match r [])"
| "re_match ((p, Opt) # r) (c # cs) =
     (case (if p c then map_option (\<lambda>gs. [c] # gs) (re_match r cs) else None) of
        Some gs \<Rightarrow> Some gs
      | None \<Rightarrow> map_option (\<lambda>gs. [] # gs) (re_match r (c # cs)))"
| "re_match ((p, Star) # r) [] = map_option (\<lambda>gs. [] # gs) (re_match r [])"
| "re_match ((p, Star) # r) (c # cs) =
     (case (if p c then map_option (\<lambda>gs. (c # hd gs) # tl gs) (re_match ((p, Star) # r) cs)
            else None) of
        Some gs \<Rightarrow> Some gs
      | None \<Rightarrow> map_option (\<lambda>gs. [] # gs) (re_match r (c # cs)))"
| "re_match ((p, Plus) # r) [] = None"
| "re_match ((p, Plus) # r) (c # cs) =
     (if p c then map_option (\<lambda>gs. (c # hd gs) # tl gs) (re_match ((p, Star) # r) cs)
      else None)"

fun re_search :: "item list \<Rightarrow> string \<Rightarrow> string list option" where
  "re_search r [] = re_match r []"
| "re_search r (c # cs) =
     (case re_match r (c # cs) of Some gs \<Rightarrow> Some gs | None \<Rightarrow> re_search r cs)"

definition lit :: "string \<Rightarrow> item list" where
  "lit s = map (\<lambda>c. ((\<lambda>d. d = c), Once)) s"

text \<open>\<open>/r?(disk\d+)/\<close>; the value is capture group 1.\<close>

definition diskRe :: "item list" where
  "diskRe = [((\<lambda>d. d = CHR ''r''), Opt)] @ lit ''disk'' @ [(isDigit, Plus)]"

definition diskMatch :: "string \<Rightarrow> string option" where
  "diskMatch path = map_option (\<lambda>gs. concat (tl gs)) (re_search diskRe path)"

text \<open>\<open>/bytes.*copied/\<close> and \<open>/records (in|out)/\<close>, used as tests only.\<close>

definition bytesCopiedRe :: "item list" where
  "bytesCopiedRe = lit ''bytes'' @ [(isDot, Star)] @ lit ''copied''"

definition matchBytesCopied :: "string \<Rightarrow> bool" where
  "matchBytesCopied output = (re_search bytesCopiedRe output \<noteq> None)"

definition matchRecords :: "string \<Rightarrow> bool" where
  "matchRecords output =
     (re_search (lit ''records in'') output \<noteq> None
      \<or> re_search (lit ''records out'') output \<noteq> None)"

text \<open>\<open>/(\d+)\s+bytes/\<close>; the value is capture group 1.\<close>

definition bytesRe :: "item list" where
  "bytesRe = [(isDigit, Plus), (isSpace, Plus)] @ lit ''bytes''"

definition bytesMatch :: "string \<Rightarrow> string option" where
  "bytesMatch output = map_option hd (re_search bytesRe output)"

text \<open>\<open>/([\d.]+)\s*([MGK]?B\/s)/\<close>; the value is the pair of capture groups 1 and 2.\<close>

definition speedRe :: "item list" where
  "speedRe = [(isDigitOrPoint, Plus), (isSpace, Star), (isMGK, Opt)] @ lit ''B/s''"

definition speedMatch :: "string \<Rightarrow> (string \<times> string) option" where
  "speedMatch output =
     map_option (\<lambda>gs. (hd gs, concat (drop 2 gs))) (re_search speedRe output)"


section \<open>Numbers and their text\<close>

text \<open>
  \<open>parseInt\<close> is only applied to capture group 1 of \<open>/(\d+)\s+bytes/\<close>, a non-empty run
  of decimal digits. A JavaScript number is an IEEE double: it holds the integer exactly
  below \<open>2^53\<close>, division by 1024 is then exact, and \<open>toFixed(1)\<close> prints in fixed
  notation the integer \<open>n\<close> with \<open>n / 10\<close> closest to the value, the larger one on a tie.
  The embedding computes with \<^typ>\<open>nat\<close> and \<^typ>\<open>rat\<close>; it is the program's arithmetic for
  byte counts below \<open>2^53\<close>.
\<close>

definition digitVal :: "char \<Rightarrow> nat" where
  "digitVal c = of_char c - of_char CHR ''0''"

definition parseInt :: "string \<Rightarrow> nat" where
  "parseInt ds = foldl (\<lambda>acc c. acc * 10 + digitVal c) 0 ds"

definition digitChar :: "nat \<Rightarrow> char" where
  "digitChar d =
     (if d = 0 then CHR ''0'' else if d = 1 then CHR ''1'' else if d = 2 then CHR ''2''
      else if d = 3 then CHR ''3'' else if d = 4 then CHR ''4'' else if d = 5 then CHR ''5''
      else if d = 6 then CHR ''6'' else if d = 7 then CHR ''7'' else if d = 8 then CHR ''8''
      else CHR ''9'')"

fun showNat :: "nat \<Rightarrow> string" where
  "showNat n =
     (if n < 10 then [digitChar n] else showNat (n div 10) @ [digitChar (n mod 10)])"

declare showNat.simps [simp del]

definition showInt :: "int \<Rightarrow> string" where
  "showInt i = (if i < 0 then ''-'' @ showNat (nat (- i)) else showNat (nat i))"

definition toFixed1 :: "rat \<Rightarrow> string" where
  "toFixed1 x =
     (let n = nat \<lfloor>x * 10 + 1 / 2\<rfloor> in showNat (n div 10) @ ''.'' @ showNat (n mod 10))"

section \<open>The application state and the subprocesses\<close>

datatype MODES = BACKUP | RESTORE

datatype STATES =
    MAIN_MENU | SELECT_SOURCE | SELECT_DEST | CONFIRM | VALIDATING
  | BACKING_UP | SHRINKING | RESTORING | COMPLETE | ERROR

text \<open>
  The \<open>useState\<close> cells of \<open>App\<close>. Two further fields record effects in the order they
  happen: \<open>visited\<close> every argument of \<open>setState\<close>, \<open>spawned\<close> every call of \<open>spawn\<close>
  (command and arguments).
\<close>

record app =
  mode :: "MODES option"
  state :: STATES
  source :: string
  destination :: string
  progress :: nat
  bytesWritten :: string
  speed :: string
  error :: string
  logs :: "string list"
  shrinkProgress :: string
  visited :: "STATES list"
  spawned :: "(string \<times> string list) list"

definition initialApp :: app where
  "initialApp =
     \<lparr>mode = None, state = MAIN_MENU, source = '''', destination = '''', progress = 0,
      bytesWritten = ''0'', speed = ''0'', error = '''', logs = [], shrinkProgress = '''',
      visited = [], spawned = []\<rparr>"

text \<open>
  A subprocess is what it writes, in arrival order, and how it ends: the \<open>close\<close> event
  with an exit code (\<open>null\<close>, here \<open>None\<close>, after a signal) or the \<open>error\<close> event with a
  message when it could not be started. The embedding delivers exactly one of the two.
  The environment of a run fixes the platform, whether \<open>/usr/local/bin/pishrink.sh\<close>
  exists, and each subprocess the run may start.
\<close>

datatype chunk = Stdout string | Stderr string

datatype proc_result = Closed "int option" | SpawnError string

record run =
  chunks :: "chunk list"
  outcome :: proc_result

record env =
  platform :: string
  existsPishrink :: bool
  sudoCheck :: run
  unmount :: run
  checkSource :: run
  dd :: run
  download :: run
  pishrink :: run
  ddProcess :: run

definition showCode :: "int option \<Rightarrow> string" where
  "showCode code = (case code of None \<Rightarrow> ''null'' | Some n \<Rightarrow> showInt n)"

definition setState :: "STATES \<Rightarrow> app \<Rightarrow> app" where
  "setState s a = a\<lparr>state := s, visited := visited a @ [s]\<rparr>"

definition setError :: "string \<Rightarrow> app \<Rightarrow> app" where
  "setError m a = a\<lparr>error := m\<rparr>"

definition setBytesWritten :: "string \<Rightarrow> app \<Rightarrow> app" where
  "setBytesWritten m a = a\<lparr>bytesWritten := m\<rparr>"

definition setSpeed :: "string \<Rightarrow> app \<Rightarrow> app" where
  "setSpeed m a = a\<lparr>speed := m\<rparr>"

definition setShrinkProgress :: "string \<Rightarrow> app \<Rightarrow> app" where
  "setShrinkProgress m a = a\<lparr>shrinkProgress := m\<rparr>"

definition addLog :: "string \<Rightarrow> app \<Rightarrow> app" where
  "addLog message a = a\<lparr>logs := drop (length (logs a) - 5) (logs a) @ [message]\<rparr>"

definition spawn :: "string \<Rightarrow> string list \<Rightarrow> app \<Rightarrow> app" where
  "spawn command args a = a\<lparr>spawned := spawned a @ [(command, args)]\<rparr>"

section \<open>The pipeline of index.js\<close>

text \<open>
  Each function below is the function of that name in \<open>App\<close>. A callback registered with
  \<open>.on('close', ...)\<close> or \<open>.on('error', ...)\<close> is the matching branch of the case
  distinction on the subprocess's outcome; a \<open>data\<close> callback is folded over the
  subprocess's chunks before that. \<open>source\<close> and \<open>destination\<close> are the values the
  closure holds: those of the state the run starts from.
\<close>

definition pishrinkPath :: string where
  "pishrinkPath = ''/usr/local/bin/pishrink.sh''"

definition downloadCommand :: string where
  "downloadCommand =
     ''curl -fsSL https://raw.githubusercontent.com/Drewsif/PiShrink/master/pishrink.sh -o ''
     @ pishrinkPath @ '' && chmod +x '' @ pishrinkPath"

definition ddArgs :: "env \<Rightarrow> app \<Rightarrow> string list" where
  "ddArgs e a =
     (if platform e = ''darwin''
      then [''if='' @ source a, ''of='' @ destination a, ''bs=4m'', ''status=progress'']
      else [''if='' @ source a, ''of='' @ destination a, ''bs=4M'', ''status=progress'',
            ''conv=fsync''])"

text \<open>The \<open>data\<close> callbacks of the shrink subprocess (both streams alike).\<close>

fun pishrinkData :: "app \<Rightarrow> chunk \<Rightarrow> app" where
  "pishrinkData a (Stdout d) =
     addLog (substring0 60 (trim d)) (setShrinkProgress (substring0 60 (trim d)) a)"
| "pishrinkData a (Stderr d) =
     addLog (substring0 60 (trim d)) (setShrinkProgress (substring0 60 (trim d)) a)"

definition runShrink :: "env \<Rightarrow> app \<Rightarrow> app" where
  "runShrink e a0 =
     (let a = addLog ''Running pishrink to compress image...'' a0;
          a = spawn ''sudo'' [''bash'', pishrinkPath, ''-v'', destination a0] a;
          a = foldl pishrinkData a (chunks (pishrink e))
      in case outcome (pishrink e) of
           Closed code \<Rightarrow>
             if code = Some 0 then setState COMPLETE (addLog ''Shrink complete!'' a)
             else setState COMPLETE
                    (addLog (''pishrink exited with code '' @ showCode code
                             @ '' - image saved without shrinking'') a)
         | SpawnError m \<Rightarrow>
             setState COMPLETE
               (addLog (''pishrink not available: '' @ m @ '' - image saved without shrinking'') a))"

text \<open>
  The download subprocess has a \<open>close\<close> callback only: when it cannot be started, no
  callback of the source runs and the state stays as it is.
\<close>

definition runPishrink :: "env \<Rightarrow> app \<Rightarrow> app" where
  "runPishrink e a0 =
     (let a = setState SHRINKING a0 in
      if \<not> existsPishrink e then
        (let a = addLog ''pishrink not found, downloading...'' a;
             a = spawn ''sudo'' [''bash'', ''-c'', downloadCommand] a
         in case outcome (download e) of
              Closed code \<Rightarrow>
                if code = Some 0 then runShrink e a
                else setState COMPLETE
                       (addLog ''Could not download pishrink - image saved without shrinking'' a)
            | SpawnError m \<Rightarrow> a)
      else runShrink e a)"

text \<open>
  The \<open>data\<close> callbacks of the copy subprocess, the same in \<open>runBackup\<close> and \<open>runRestore\<close>.
  The first component is the local variable \<open>lastError\<close>.
\<close>

definition isErrorLine :: "string \<Rightarrow> bool" where
  "isErrorLine output = (\<not> matchBytesCopied output \<and> \<not> matchRecords output)"

definition mbText :: "string \<Rightarrow> string" where
  "mbText digits = toFixed1 (of_nat (parseInt digits) / 1024 / 1024) @ '' MB''"

fun ddData :: "string \<times> app \<Rightarrow> chunk \<Rightarrow> string \<times> app" where
  "ddData (lastError, a) (Stderr output) =
     (let lastError' =
            (if isErrorLine output then trim output else lastError);
          a = (case bytesMatch output of
                 Some digits \<Rightarrow> setBytesWritten (mbText digits) a
               | None \<Rightarrow> a);
          a = (case speedMatch output of
                 Some (num, unit) \<Rightarrow> setSpeed (num @ '' '' @ unit) a
               | None \<Rightarrow> a)
      in (lastError', addLog (substring0 60 (trim output)) a))"
| "ddData (lastError, a) (Stdout d) =
     (if trim d \<noteq> [] then (lastError, addLog (substring0 60 (trim d)) a) else (lastError, a))"

definition errorMsg :: "string \<Rightarrow> int option \<Rightarrow> string" where
  "errorMsg lastError code = (if lastError \<noteq> [] then lastError else ''exit code '' @ showCode code)"

definition runBackup :: "env \<Rightarrow> app \<Rightarrow> app" where
  "runBackup e a0 =
     (let a = setState BACKING_UP a0;
          a = addLog (''Starting backup from '' @ source a0 @ '' to '' @ destination a0) a;
          a = spawn ''sudo'' (''dd'' # ddArgs e a0) a;
          (lastError, a) = foldl ddData ([], a) (chunks (dd e))
      in case outcome (dd e) of
           Closed code \<Rightarrow>
             if code = Some 0
             then runPishrink e (addLog ''Backup complete! Starting pishrink...'' a)
             else setState ERROR (setError (''dd failed: '' @ errorMsg lastError code) a)
         | SpawnError m \<Rightarrow> setState ERROR (setError (''Failed to start dd: '' @ m) a))"

definition checkSourceAndBackup :: "env \<Rightarrow> app \<Rightarrow> app" where
  "checkSourceAndBackup e a0 =
     (let a = addLog ''Checking source device...'' a0;
          a = spawn ''sudo'' [''test'', ''-e'', source a0] a
      in case outcome (checkSource e) of
           Closed code \<Rightarrow>
             if code \<noteq> Some 0
             then setState ERROR (setError (''Source device not found: '' @ source a0) a)
             else runBackup e a
         | SpawnError m \<Rightarrow> setState ERROR (setError (''Cannot access source: '' @ m) a))"

text \<open>
  The \<open>data\<close> callbacks of the unmount subprocess in \<open>validateAndBackup\<close>; the first
  component is the local variable \<open>unmountError\<close>.
\<close>

fun unmountData :: "string \<times> app \<Rightarrow> chunk \<Rightarrow> string \<times> app" where
  "unmountData (unmountError, a) (Stderr d) = (unmountError @ d, a)"
| "unmountData (unmountError, a) (Stdout d) = (unmountError, addLog (substring0 60 (trim d)) a)"

definition validateAndBackup :: "env \<Rightarrow> app \<Rightarrow> app" where
  "validateAndBackup e a0 =
     (let a = setState VALIDATING a0;
          a = addLog ''Validating sudo access...'' a;
          a = spawn ''sudo'' [''-v''] a
      in case outcome (sudoCheck e) of
           Closed code \<Rightarrow>
             if code \<noteq> Some 0
             then setState ERROR
                    (setError ''sudo authentication failed. Please run with sudo access.'' a)
             else
               (case diskMatch (source a0) of
                  Some diskName \<Rightarrow>
                    if platform e = ''darwin'' then
                      (let a = addLog (''Unmounting '' @ diskName @ ''...'') a;
                           a = spawn ''diskutil'' [''unmountDisk'', diskName] a;
                           (unmountError, a) = foldl unmountData ([], a) (chunks (unmount e))
                       in case outcome (unmount e) of
                            Closed code \<Rightarrow>
                              if code \<noteq> Some 0
                              then checkSourceAndBackup e
                                     (addLog (''Unmount warning: ''
                                              @ (if trim unmountError \<noteq> [] then trim unmountError
                                                 else ''disk may already be unmounted'')) a)
                              else checkSourceAndBackup e (addLog ''Disk unmounted successfully'' a)
                          | SpawnError m \<Rightarrow>
                              checkSourceAndBackup e (addLog (''Unmount skipped: '' @ m) a))
                    else checkSourceAndBackup e a
                | None \<Rightarrow> checkSourceAndBackup e a)
         | SpawnError m \<Rightarrow> setState ERROR (setError (''sudo failed: '' @ m) a))"

text \<open>\<open>runRestore\<close>: the copy subprocess is chosen by \<open>isGzipped\<close> before it is started.\<close>

definition isGzipped :: "app \<Rightarrow> bool" where
  "isGzipped a = endsWith (source a) ''.gz''"

definition gunzipPipeline :: "app \<Rightarrow> string" where
  "gunzipPipeline a =
     ''gunzip -c '' @ [CHR 0x22] @ source a @ [CHR 0x22] @ '' | dd of='' @ destination a
     @ '' bs=4m status=progress''"

definition runRestore :: "env \<Rightarrow> app \<Rightarrow> app" where
  "runRestore e a0 =
     (let a = setState RESTORING a0;
          a = addLog (''Restoring '' @ source a0 @ '' to '' @ destination a0) a;
          a = (if isGzipped a0
               then spawn ''sudo'' [''bash'', ''-c'', gunzipPipeline a0]
                      (addLog ''Decompressing and writing image...'' a)
               else spawn ''sudo'' (''dd'' # ddArgs e a0) a);
          (lastError, a) = foldl ddData ([], a) (chunks (ddProcess e))
      in case outcome (ddProcess e) of
           Closed code \<Rightarrow>
             if code = Some 0 then setState COMPLETE (addLog ''Restore complete!'' a)
             else setState ERROR (setError (''Restore failed: '' @ errorMsg lastError code) a)
         | SpawnError m \<Rightarrow> setState ERROR (setError (''Failed to start restore: '' @ m) a))"

definition validateAndRestore :: "env \<Rightarrow> app \<Rightarrow> app" where
  "validateAndRestore e a0 =
     (let a = setState VALIDATING a0;
          a = addLog ''Validating sudo access...'' a;
          a = spawn ''sudo'' [''-v''] a
      in case outcome (sudoCheck e) of
           Closed code \<Rightarrow>
             if code \<noteq> Some 0
             then setState ERROR
                    (setError ''sudo authentication failed. Please run with sudo access.'' a)
             else
               (case diskMatch (destination a0) of
                  Some diskName \<Rightarrow>
                    if platform e = ''darwin'' then
                      (let a = addLog (''Unmounting '' @ diskName @ ''...'') a;
                           a = spawn ''diskutil'' [''unmountDisk'', diskName] a
                       in case outcome (unmount e) of
                            Closed code \<Rightarrow>
                              if code \<noteq> Some 0
                              then runRestore e
                                     (addLog ''Unmount warning: disk may already be unmounted'' a)
                              else runRestore e (addLog ''Disk unmounted successfully'' a)
                          | SpawnError m \<Rightarrow> runRestore e a)
                    else runRestore e a
                | None \<Rightarrow> runRestore e a)
         | SpawnError m \<Rightarrow> setState ERROR (setError (''sudo failed: '' @ m) a))"

text \<open>
  The callbacks of the screens that lead to a run and away from a failed one: the main
  menu, the two selections, the confirmation (\<open>start\<close>) and the error screen (\<open>retry\<close>,
  \<open>menu\<close>).
\<close>

definition setMode :: "MODES option \<Rightarrow> app \<Rightarrow> app" where
  "setMode m a = a\<lparr>mode := m\<rparr>"

definition setSource :: "string \<Rightarrow> app \<Rightarrow> app" where
  "setSource p a = a\<lparr>source := p\<rparr>"

definition setDestination :: "string \<Rightarrow> app \<Rightarrow> app" where
  "setDestination p a = a\<lparr>destination := p\<rparr>"

definition menuSelect :: "MODES \<Rightarrow> app \<Rightarrow> app" where
  "menuSelect m a = setState SELECT_SOURCE (setMode (Some m) a)"

definition selectSource :: "string \<Rightarrow> app \<Rightarrow> app" where
  "selectSource p a = setState SELECT_DEST (setSource p a)"

definition selectDest :: "string \<Rightarrow> app \<Rightarrow> app" where
  "selectDest p a = setState CONFIRM (setDestination p a)"

definition confirmStart :: "env \<Rightarrow> app \<Rightarrow> app" where
  "confirmStart e a = (if mode a = Some RESTORE then validateAndRestore e a else validateAndBackup e a)"

definition errorRetry :: "app \<Rightarrow> app" where
  "errorRetry a = setState SELECT_SOURCE (setError [] a)"

definition errorMenu :: "app \<Rightarrow> app" where
  "errorMenu a =
     setState MAIN_MENU (setMode None (setDestination [] (setSource [] (setError [] a))))"

section \<open>The words of the specification, and concrete runs\<close>

text \<open>
  \<open>lastErrorText\<close> is the specification's description of the failure reason's source:
  the most recent standard-error chunk of the copy subprocess that is classified as an
  error line, trimmed; it is empty when there was none.
\<close>

fun stderrChunks :: "chunk list \<Rightarrow> string list" where
  "stderrChunks [] = []"
| "stderrChunks (Stderr d # cs) = d # stderrChunks cs"
| "stderrChunks (Stdout d # cs) = stderrChunks cs"

definition lastErrorText :: "chunk list \<Rightarrow> string" where
  "lastErrorText cs =
     (let es = filter isErrorLine (stderrChunks cs) in if es = [] then [] else trim (last es))"

text \<open>
  The runs of the specification's scenarios: a backup of \<open>/dev/rdisk9\<close> to
  \<open>/tmp/out.img\<close> and a restore of \<open>/tmp/in.img.gz\<close> to \<open>/dev/rdisk9\<close>, each reached
  from the main menu through the selection screens; \<open>envOk\<close> is an environment on macOS
  in which every subprocess is silent and exits with code 0.
\<close>

definition quiet :: "int \<Rightarrow> run" where
  "quiet code = \<lparr>chunks = [], outcome = Closed (Some code)\<rparr>"

definition says :: "string \<Rightarrow> int \<Rightarrow> run" where
  "says text code = \<lparr>chunks = [Stderr text], outcome = Closed (Some code)\<rparr>"

definition envOk :: env where
  "envOk =
     \<lparr>platform = ''darwin'', existsPishrink = True, sudoCheck = quiet 0, unmount = quiet 0,
      checkSource = quiet 0, dd = quiet 0, download = quiet 0, pishrink = quiet 0,
      ddProcess = quiet 0\<rparr>"

definition appBackup :: app where
  "appBackup =
     selectDest ''/tmp/out.img'' (selectSource ''/dev/rdisk9'' (menuSelect BACKUP initialApp))"

definition appRestore :: app where
  "appRestore =
     selectDest ''/dev/rdisk9'' (selectSource ''/tmp/in.img.gz'' (menuSelect RESTORE initialApp))"

section \<open>What each stage leaves unchanged\<close>

lemmas setters =
  setState_def setError_def setBytesWritten_def setSpeed_def setShrinkProgress_def
  addLog_def spawn_def setMode_def setSource_def setDestination_def

lemma pishrinkData_frame:
  "state (pishrinkData a c) = state a" "visited (pishrinkData a c) = visited a"
  "spawned (pishrinkData a c) = spawned a" "error (pishrinkData a c) = error a"
  "bytesWritten (pishrinkData a c) = bytesWritten a" "speed (pishrinkData a c) = speed a"
  "source (pishrinkData a c) = source a" "destination (pishrinkData a c) = destination a"
  "mode (pishrinkData a c) = mode a"
  by (cases c; simp add: setters)+

lemma foldl_pishrinkData_frame:
  "state (foldl pishrinkData a cs) = state a" "visited (foldl pishrinkData a cs) = visited a"
  "spawned (foldl pishrinkData a cs) = spawned a" "error (foldl pishrinkData a cs) = error a"
  "bytesWritten (foldl pishrinkData a cs) = bytesWritten a"
  "speed (foldl pishrinkData a cs) = speed a"
  "source (foldl pishrinkData a cs) = source a"
  "destination (foldl pishrinkData a cs) = destination a"
  "mode (foldl pishrinkData a cs) = mode a"
  by (induction cs arbitrary: a; simp add: pishrinkData_frame)+

lemma ddData_frame:
  "state (snd (ddData la c)) = state (snd la)" "visited (snd (ddData la c)) = visited (snd la)"
  "spawned (snd (ddData la c)) = spawned (snd la)" "error (snd (ddData la c)) = error (snd la)"
  "source (snd (ddData la c)) = source (snd la)"
  "destination (snd (ddData la c)) = destination (snd la)"
  "mode (snd (ddData la c)) = mode (snd la)"
  by (cases la; cases c; simp add: setters Let_def split: option.splits prod.splits)+

lemma foldl_ddData_frame:
  "state (snd (foldl ddData la cs)) = state (snd la)"
  "visited (snd (foldl ddData la cs)) = visited (snd la)"
  "spawned (snd (foldl ddData la cs)) = spawned (snd la)"
  "error (snd (foldl ddData la cs)) = error (snd la)"
  "source (snd (foldl ddData la cs)) = source (snd la)"
  "destination (snd (foldl ddData la cs)) = destination (snd la)"
  "mode (snd (foldl ddData la cs)) = mode (snd la)"
  by (induction cs arbitrary: la; simp add: ddData_frame)+

lemma unmountData_frame:
  "state (snd (unmountData la c)) = state (snd la)"
  "visited (snd (unmountData la c)) = visited (snd la)"
  "spawned (snd (unmountData la c)) = spawned (snd la)"
  "error (snd (unmountData la c)) = error (snd la)"
  "bytesWritten (snd (unmountData la c)) = bytesWritten (snd la)"
  "speed (snd (unmountData la c)) = speed (snd la)"
  "source (snd (unmountData la c)) = source (snd la)"
  "destination (snd (unmountData la c)) = destination (snd la)"
  "mode (snd (unmountData la c)) = mode (snd la)"
  by (cases la; cases c; simp add: setters)+

lemma foldl_unmountData_frame:
  "state (snd (foldl unmountData la cs)) = state (snd la)"
  "visited (snd (foldl unmountData la cs)) = visited (snd la)"
  "spawned (snd (foldl unmountData la cs)) = spawned (snd la)"
  "error (snd (foldl unmountData la cs)) = error (snd la)"
  "bytesWritten (snd (foldl unmountData la cs)) = bytesWritten (snd la)"
  "speed (snd (foldl unmountData la cs)) = speed (snd la)"
  "source (snd (foldl unmountData la cs)) = source (snd la)"
  "destination (snd (foldl unmountData la cs)) = destination (snd la)"
  "mode (snd (foldl unmountData la cs)) = mode (snd la)"
  by (induction cs arbitrary: la; simp add: unmountData_frame)+

text \<open>The shrink stage.\<close>

lemma runShrink_state: "state (runShrink e a) = COMPLETE"
  by (simp add: runShrink_def Let_def setters foldl_pishrinkData_frame split: proc_result.splits)

lemma runShrink_visited: "visited (runShrink e a) = visited a @ [COMPLETE]"
  by (simp add: runShrink_def Let_def setters foldl_pishrinkData_frame split: proc_result.splits)


lemma runShrink_destination: "destination (runShrink e a) = destination a"
  by (simp add: runShrink_def Let_def setters foldl_pishrinkData_frame split: proc_result.splits)

lemma runPishrink_visited:
  "visited (runPishrink e a) =
     visited a @ [SHRINKING] @
       (if \<not> existsPishrink e \<and> (\<exists>m. outcome (download e) = SpawnError m) then [] else [COMPLETE])"
  by (auto simp add: runPishrink_def Let_def setters runShrink_visited split: proc_result.splits)


lemma runPishrink_state:
  "state (runPishrink e a) =
     (if \<not> existsPishrink e \<and> (\<exists>m. outcome (download e) = SpawnError m) then SHRINKING else COMPLETE)"
  by (auto simp add: runPishrink_def Let_def setters runShrink_state split: proc_result.splits)

text \<open>The copy stage of a backup.\<close>

lemma runBackup_visited:
  "visited (runBackup e a) =
     visited a @ [BACKING_UP] @
       (if outcome (dd e) = Closed (Some 0)
        then [SHRINKING] @
             (if \<not> existsPishrink e \<and> (\<exists>m. outcome (download e) = SpawnError m) then []
              else [COMPLETE])
        else [ERROR])"
  by (cases "outcome (dd e)")
     (simp_all add: runBackup_def Let_def case_prod_beta setters foldl_ddData_frame
        runPishrink_visited)

lemma runBackup_state:
  "state (runBackup e a) =
     (if outcome (dd e) = Closed (Some 0)
      then (if \<not> existsPishrink e \<and> (\<exists>m. outcome (download e) = SpawnError m) then SHRINKING
            else COMPLETE)
      else ERROR)"
  by (cases "outcome (dd e)")
     (simp_all add: runBackup_def Let_def case_prod_beta setters foldl_ddData_frame
        runPishrink_state)


lemma runPishrink_destination: "destination (runPishrink e a) = destination a"
  by (cases "outcome (download e)")
     (simp_all add: runPishrink_def Let_def setters runShrink_destination)

lemma runBackup_destination: "destination (runBackup e a) = destination a"
  by (cases "outcome (dd e)")
     (simp_all add: runBackup_def Let_def case_prod_beta setters foldl_ddData_frame
        runPishrink_destination)


text \<open>
  After a successful privilege check \<open>validateAndBackup\<close> goes on with
  \<open>checkSourceAndBackup\<close>, whatever the unmount subprocess does.
\<close>

lemma validateAndBackup_continues:
  assumes "outcome (sudoCheck e) = Closed (Some 0)"
  shows "\<exists>a'. validateAndBackup e a = checkSourceAndBackup e a'
           \<and> visited a' = visited a @ [VALIDATING] \<and> error a' = error a
           \<and> source a' = source a \<and> destination a' = destination a \<and> mode a' = mode a
           \<and> bytesWritten a' = bytesWritten a \<and> speed a' = speed a
           \<and> spawned a' = spawned a @ (''sudo'', [''-v'']) #
                (case diskMatch (source a) of
                   Some d \<Rightarrow> if platform e = ''darwin'' then [(''diskutil'', [''unmountDisk'', d])]
                             else []
                 | None \<Rightarrow> [])"
proof (cases "diskMatch (source a)")
  case None
  show ?thesis
    by (rule exI [of _ "spawn ''sudo'' [''-v''] (addLog ''Validating sudo access...'' (setState VALIDATING a))"])
       (simp add: validateAndBackup_def Let_def assms None setters)
next
  case (Some d)
  show ?thesis
  proof (cases "platform e = ''darwin''")
    case False
    show ?thesis
      by (rule exI [of _ "spawn ''sudo'' [''-v''] (addLog ''Validating sudo access...'' (setState VALIDATING a))"])
         (simp add: validateAndBackup_def Let_def assms Some False setters)
  next
    case True
    let ?a1 = "spawn ''diskutil'' [''unmountDisk'', d]
                 (addLog (''Unmounting '' @ d @ ''...'')
                   (spawn ''sudo'' [''-v''] (addLog ''Validating sudo access...'' (setState VALIDATING a))))"
    let ?f = "foldl unmountData ([], ?a1) (chunks (unmount e))"
    show ?thesis
    proof (cases "outcome (unmount e)")
      case (SpawnError m)
      show ?thesis
        by (rule exI [of _ "addLog (''Unmount skipped: '' @ m) (snd ?f)"])
           (simp add: validateAndBackup_def Let_def case_prod_beta assms Some True SpawnError
              setters foldl_unmountData_frame)
    next
      case (Closed code)
      show ?thesis
      proof (cases "code = Some 0")
        case True
        show ?thesis
          by (rule exI [of _ "addLog ''Disk unmounted successfully'' (snd ?f)"])
             (simp add: validateAndBackup_def Let_def case_prod_beta assms Some
                \<open>platform e = ''darwin''\<close> Closed True setters foldl_unmountData_frame)
      next
        case False
        show ?thesis
          by (rule exI [of _ "addLog (''Unmount warning: ''
                  @ (if trim (fst ?f) \<noteq> [] then trim (fst ?f)
                     else ''disk may already be unmounted'')) (snd ?f)"])
             (simp add: validateAndBackup_def Let_def case_prod_beta assms Some
                \<open>platform e = ''darwin''\<close> Closed False setters foldl_unmountData_frame)
      qed
    qed
  qed
qed

text \<open>The copy stage of a restore.\<close>

lemma runRestore_visited:
  "visited (runRestore e a) =
     visited a @ [RESTORING] @ (if outcome (ddProcess e) = Closed (Some 0) then [COMPLETE] else [ERROR])"
  by (cases "outcome (ddProcess e)")
     (simp_all add: runRestore_def Let_def case_prod_beta setters foldl_ddData_frame)

lemma runRestore_state:
  "state (runRestore e a) = (if outcome (ddProcess e) = Closed (Some 0) then COMPLETE else ERROR)"
  by (cases "outcome (ddProcess e)")
     (simp_all add: runRestore_def Let_def case_prod_beta setters foldl_ddData_frame)

lemma runRestore_spawned:
  "spawned (runRestore e a) =
     spawned a @ [if isGzipped a then (''sudo'', [''bash'', ''-c'', gunzipPipeline a])
                  else (''sudo'', ''dd'' # ddArgs e a)]"
  by (cases "outcome (ddProcess e)")
     (simp_all add: runRestore_def Let_def case_prod_beta setters foldl_ddData_frame)

lemma validateAndRestore_continues:
  assumes "outcome (sudoCheck e) = Closed (Some 0)"
  shows "\<exists>a'. validateAndRestore e a = runRestore e a'
           \<and> visited a' = visited a @ [VALIDATING] \<and> error a' = error a
           \<and> source a' = source a \<and> destination a' = destination a \<and> mode a' = mode a
           \<and> bytesWritten a' = bytesWritten a \<and> speed a' = speed a
           \<and> spawned a' = spawned a @ (''sudo'', [''-v'']) #
                (case diskMatch (destination a) of
                   Some d \<Rightarrow> if platform e = ''darwin'' then [(''diskutil'', [''unmountDisk'', d])]
                             else []
                 | None \<Rightarrow> [])"
proof (cases "diskMatch (destination a)")
  case None
  show ?thesis
    by (rule exI [of _ "spawn ''sudo'' [''-v''] (addLog ''Validating sudo access...'' (setState VALIDATING a))"])
       (intro conjI, simp add: validateAndRestore_def Let_def assms None, simp_all add: setters None)
next
  case (Some d)
  show ?thesis
  proof (cases "platform e = ''darwin''")
    case False
    show ?thesis
      by (rule exI [of _ "spawn ''sudo'' [''-v''] (addLog ''Validating sudo access...'' (setState VALIDATING a))"])
         (intro conjI, simp add: validateAndRestore_def Let_def assms Some False,
          simp_all add: setters Some False)
  next
    case True
    let ?a1 = "spawn ''diskutil'' [''unmountDisk'', d]
                 (addLog (''Unmounting '' @ d @ ''...'')
                   (spawn ''sudo'' [''-v''] (addLog ''Validating sudo access...'' (setState VALIDATING a))))"
    show ?thesis
    proof (cases "outcome (unmount e)")
      case (SpawnError m)
      show ?thesis
        by (rule exI [of _ ?a1])
           (intro conjI, simp add: validateAndRestore_def Let_def assms Some True SpawnError,
            simp_all add: setters Some True)
    next
      case (Closed code)
      show ?thesis
      proof (cases "code = Some 0")
        case True
        show ?thesis
          by (rule exI [of _ "addLog ''Disk unmounted successfully'' ?a1"])
             (intro conjI, simp add: validateAndRestore_def Let_def assms Some
                \<open>platform e = ''darwin''\<close> Closed True,
              simp_all add: setters Some \<open>platform e = ''darwin''\<close>)
      next
        case False
        show ?thesis
          by (rule exI [of _ "addLog ''Unmount warning: disk may already be unmounted'' ?a1"])
             (intro conjI, simp add: validateAndRestore_def Let_def assms Some
                \<open>platform e = ''darwin''\<close> Closed False,
              simp_all add: setters Some \<open>platform e = ''darwin''\<close>)
      qed
    qed
  qed
qed

text \<open>A failed privilege check.\<close>

lemma validateAndBackup_sudo_failed:
  assumes "outcome (sudoCheck e) = Closed code" "code \<noteq> Some 0"
  shows "validateAndBackup e a =
           setState ERROR (setError ''sudo authentication failed. Please run with sudo access.''
             (spawn ''sudo'' [''-v''] (addLog ''Validating sudo access...'' (setState VALIDATING a))))"
  using assms by (simp add: validateAndBackup_def Let_def)

lemma validateAndRestore_sudo_failed:
  assumes "outcome (sudoCheck e) = Closed code" "code \<noteq> Some 0"
  shows "validateAndRestore e a =
           setState ERROR (setError ''sudo authentication failed. Please run with sudo access.''
             (spawn ''sudo'' [''-v''] (addLog ''Validating sudo access...'' (setState VALIDATING a))))"
  using assms by (simp add: validateAndRestore_def Let_def)

text \<open>The local variable \<open>lastError\<close> after the copy subprocess's chunks.\<close>

lemma fst_ddData:
  "fst (ddData la c) =
     (case c of Stderr d \<Rightarrow> if isErrorLine d then trim d else fst la | Stdout d \<Rightarrow> fst la)"
  by (cases la; cases c) (simp_all add: Let_def)

lemma fst_foldl_ddData:
  "fst (foldl ddData la cs) =
     (if filter isErrorLine (stderrChunks cs) = [] then fst la
      else trim (last (filter isErrorLine (stderrChunks cs))))"
proof (induction cs arbitrary: la)
  case Nil
  show ?case by simp
next
  case (Cons c cs)
  have "fst (foldl ddData la (c # cs)) = fst (foldl ddData (ddData la c) cs)"
    by simp
  also have "\<dots> = (if filter isErrorLine (stderrChunks cs) = [] then fst (ddData la c)
                   else trim (last (filter isErrorLine (stderrChunks cs))))"
    by (rule Cons.IH)
  also have "\<dots> = (if filter isErrorLine (stderrChunks (c # cs)) = [] then fst la
                   else trim (last (filter isErrorLine (stderrChunks (c # cs)))))"
    by (cases c) (simp_all add: fst_ddData)
  finally show ?case .
qed

lemma runBackup_error_failed:
  assumes "outcome (dd e) = Closed code" "code \<noteq> Some 0"
  shows "error (runBackup e a) = ''dd failed: '' @ errorMsg (lastErrorText (chunks (dd e))) code"
  using assms
  by (simp add: runBackup_def Let_def case_prod_beta setters fst_foldl_ddData lastErrorText_def)

lemma runRestore_error_failed:
  assumes "outcome (ddProcess e) = Closed code" "code \<noteq> Some 0"
  shows "error (runRestore e a) =
           ''Restore failed: '' @ errorMsg (lastErrorText (chunks (ddProcess e))) code"
  using assms
  by (simp add: runRestore_def Let_def case_prod_beta setters fst_foldl_ddData lastErrorText_def)




lemma validateAndRestore_visited:
  assumes "outcome (sudoCheck e) = Closed (Some 0)"
  shows "visited (validateAndRestore e a) =
           visited a @ [VALIDATING, RESTORING] @
             (if outcome (ddProcess e) = Closed (Some 0) then [COMPLETE] else [ERROR])"
proof -
  obtain a' where a': "validateAndRestore e a = runRestore e a'"
    "visited a' = visited a @ [VALIDATING]"
    using validateAndRestore_continues [OF assms, of a] by blast
  show ?thesis
    by (simp add: a' runRestore_visited)
qed

lemma validateAndRestore_no_shrinking:
  "set (visited (validateAndRestore e a)) \<subseteq> set (visited a) \<union> {VALIDATING, RESTORING, COMPLETE, ERROR}"
proof (cases "outcome (sudoCheck e)")
  case (SpawnError m)
  then show ?thesis
    by (auto simp add: validateAndRestore_def Let_def setters)
next
  case (Closed code)
  show ?thesis
  proof (cases "code = Some 0")
    case True
    then show ?thesis
      using validateAndRestore_visited [of e a] Closed by auto
  next
    case False
    then show ?thesis
      using validateAndRestore_sudo_failed [of e code a] Closed by (auto simp add: setters)
  qed
qed

text \<open>The commands started by each stage.\<close>

lemma runShrink_commands: "fst ` set (spawned (runShrink e a)) = insert ''sudo'' (fst ` set (spawned a))"
  by (cases "outcome (pishrink e)")
     (simp_all add: runShrink_def Let_def setters foldl_pishrinkData_frame)

lemma runPishrink_commands:
  "fst ` set (spawned (runPishrink e a)) \<subseteq> insert ''sudo'' (fst ` set (spawned a))"
  by (cases "outcome (download e)")
     (auto simp add: runPishrink_def Let_def setters runShrink_commands)

lemma runBackup_copy_done:
  "outcome (dd e) = Closed (Some 0) \<Longrightarrow>
     runBackup e a =
       runPishrink e
         (addLog ''Backup complete! Starting pishrink...''
           (snd (foldl ddData
                  ([], spawn ''sudo'' (''dd'' # ddArgs e a)
                         (addLog (''Starting backup from '' @ source a @ '' to '' @ destination a)
                           (setState BACKING_UP a)))
                  (chunks (dd e)))))"
  by (simp add: runBackup_def Let_def case_prod_beta)

lemma runBackup_commands:
  "fst ` set (spawned (runBackup e a)) \<subseteq> insert ''sudo'' (fst ` set (spawned a))"
proof (cases "outcome (dd e) = Closed (Some 0)")
  case True
  let ?x = "addLog ''Backup complete! Starting pishrink...''
              (snd (foldl ddData
                     ([], spawn ''sudo'' (''dd'' # ddArgs e a)
                            (addLog (''Starting backup from '' @ source a @ '' to '' @ destination a)
                              (setState BACKING_UP a)))
                     (chunks (dd e))))"
  have "spawned ?x = spawned a @ [(''sudo'', ''dd'' # ddArgs e a)]"
    by (simp add: addLog_def foldl_ddData_frame) (simp add: setters)
  then have "fst ` set (spawned ?x) = insert ''sudo'' (fst ` set (spawned a))"
    by simp
  with runPishrink_commands [of e ?x] show ?thesis
    unfolding runBackup_copy_done [OF True] by simp
next
  case False
  then show ?thesis
    by (cases "outcome (dd e)")
       (auto simp add: runBackup_def Let_def case_prod_beta setters foldl_ddData_frame)
qed

lemma checkSourceAndBackup_commands:
  "fst ` set (spawned (checkSourceAndBackup e a)) \<subseteq> insert ''sudo'' (fst ` set (spawned a))"
proof (cases "outcome (checkSource e) = Closed (Some 0)")
  case True
  show ?thesis
    using runBackup_commands
      [of e "spawn ''sudo'' [''test'', ''-e'', source a] (addLog ''Checking source device...'' a)"]
    by (simp add: checkSourceAndBackup_def Let_def True, simp add: setters)
next
  case False
  then show ?thesis
    by (cases "outcome (checkSource e)")
       (auto simp add: checkSourceAndBackup_def Let_def setters)
qed

lemma runRestore_commands:
  "fst ` set (spawned (runRestore e a)) = insert ''sudo'' (fst ` set (spawned a))"
  by (simp add: runRestore_spawned)



section \<open>The matcher\<close>

lemma re_match_lit_append:
  "re_match (lit s @ r) (s @ y) = map_option ((@) (map (\<lambda>c. [c]) s)) (re_match r y)"
  by (induction s) (simp_all add: lit_def option.map_comp comp_def option.map_ident)

lemma re_match_lit_iff:
  "re_match (lit s @ r) x \<noteq> None \<longleftrightarrow> (\<exists>y. x = s @ y \<and> re_match r y \<noteq> None)"
proof (induction s arbitrary: x)
  case Nil
  show ?case by (simp add: lit_def)
next
  case (Cons c s)
  have step: "lit (c # s) @ r = ((\<lambda>d. d = c), Once) # (lit s @ r)"
    by (simp add: lit_def)
  show ?case
  proof (cases x)
    case Nil
    then show ?thesis by (simp add: step)
  next
    case (Cons d ds)
    then show ?thesis
      using Cons.IH [of ds] by (auto simp add: step)
  qed
qed

lemma re_match_star_iff:
  "re_match ((p, Star) # r) x \<noteq> None
     \<longleftrightarrow> (\<exists>u v. x = u @ v \<and> (\<forall>c\<in>set u. p c) \<and> re_match r v \<noteq> None)"
proof (induction x)
  case Nil
  show ?case by simp
next
  case (Cons c cs)
  show ?case
  proof
    assume m: "re_match ((p, Star) # r) (c # cs) \<noteq> None"
    show "\<exists>u v. c # cs = u @ v \<and> (\<forall>c\<in>set u. p c) \<and> re_match r v \<noteq> None"
    proof (cases "p c \<and> re_match ((p, Star) # r) cs \<noteq> None")
      case True
      then obtain u v where "cs = u @ v" "\<forall>c\<in>set u. p c" "re_match r v \<noteq> None"
        using Cons.IH by blast
      then have "c # cs = (c # u) @ v \<and> (\<forall>d\<in>set (c # u). p d) \<and> re_match r v \<noteq> None"
        using True by simp
      then show ?thesis by blast
    next
      case False
      then have "re_match r (c # cs) \<noteq> None"
        using m by (auto split: option.splits if_splits)
      then have "c # cs = [] @ (c # cs) \<and> (\<forall>d\<in>set []. p d) \<and> re_match r (c # cs) \<noteq> None"
        by simp
      then show ?thesis by blast
    qed
  next
    assume "\<exists>u v. c # cs = u @ v \<and> (\<forall>c\<in>set u. p c) \<and> re_match r v \<noteq> None"
    then obtain u v where uv: "c # cs = u @ v" "\<forall>c\<in>set u. p c" "re_match r v \<noteq> None"
      by blast
    show "re_match ((p, Star) # r) (c # cs) \<noteq> None"
    proof (cases u)
      case Nil
      then have "re_match r (c # cs) \<noteq> None"
        using uv by simp
      then show ?thesis
        by (auto split: option.splits)
    next
      case (Cons d u')
      then have "p c" "cs = u' @ v" "\<forall>c\<in>set u'. p c"
        using uv by auto
      then have "re_match ((p, Star) # r) cs \<noteq> None"
        using Cons.IH uv(3) by blast
      then show ?thesis
        using \<open>p c\<close> by (auto split: option.splits)
    qed
  qed
qed

lemma re_search_iff:
  "re_search r x \<noteq> None \<longleftrightarrow> (\<exists>pre y. x = pre @ y \<and> re_match r y \<noteq> None)"
proof (induction x)
  case Nil
  show ?case by simp
next
  case (Cons c cs)
  show ?case
  proof
    assume "re_search r (c # cs) \<noteq> None"
    then consider "re_match r (c # cs) \<noteq> None" | "re_search r cs \<noteq> None"
      by (auto split: option.splits)
    then show "\<exists>pre y. c # cs = pre @ y \<and> re_match r y \<noteq> None"
    proof cases
      case 1
      then have "c # cs = [] @ (c # cs) \<and> re_match r (c # cs) \<noteq> None" by simp
      then show ?thesis by blast
    next
      case 2
      then obtain pre y where "cs = pre @ y" "re_match r y \<noteq> None"
        using Cons.IH by blast
      then have "c # cs = (c # pre) @ y \<and> re_match r y \<noteq> None" by simp
      then show ?thesis by blast
    qed
  next
    assume "\<exists>pre y. c # cs = pre @ y \<and> re_match r y \<noteq> None"
    then obtain pre y where py: "c # cs = pre @ y" "re_match r y \<noteq> None"
      by blast
    show "re_search r (c # cs) \<noteq> None"
    proof (cases pre)
      case Nil
      then show ?thesis using py by (auto split: option.splits)
    next
      case (Cons d pre')
      then have "re_search r cs \<noteq> None"
        using py Cons.IH by auto
      then show ?thesis by (auto split: option.splits)
    qed
  qed
qed

lemma contains_literal_iff:
  "re_search (lit s) x \<noteq> None \<longleftrightarrow> (\<exists>pre post. x = pre @ s @ post)"
proof -
  have m: "re_match (lit s) y \<noteq> None \<longleftrightarrow> (\<exists>post. y = s @ post)" for y
    using re_match_lit_iff [of s "[]" y] by simp
  show ?thesis
    unfolding re_search_iff m by blast
qed

lemma matchBytesCopied_iff:
  "matchBytesCopied x \<longleftrightarrow>
     (\<exists>pre mid post. x = pre @ ''bytes'' @ mid @ ''copied'' @ post
        \<and> (\<forall>c\<in>set mid. \<not> isLineTerminator c))"
proof -
  have copied: "re_match (lit ''copied'') v \<noteq> None \<longleftrightarrow> (\<exists>post. v = ''copied'' @ post)" for v
    using re_match_lit_iff [of "''copied''" "[]" v] by simp
  have star: "re_match ((isDot, Star) # lit ''copied'') y \<noteq> None
      \<longleftrightarrow> (\<exists>mid post. y = mid @ ''copied'' @ post \<and> (\<forall>c\<in>set mid. \<not> isLineTerminator c))" for y
    unfolding re_match_star_iff copied by (auto simp add: isDot_def)
  have "re_match bytesCopiedRe z \<noteq> None
      \<longleftrightarrow> (\<exists>mid post. z = ''bytes'' @ mid @ ''copied'' @ post
            \<and> (\<forall>c\<in>set mid. \<not> isLineTerminator c))" for z
    unfolding bytesCopiedRe_def
    using re_match_lit_iff [of "''bytes''" "(isDot, Star) # lit ''copied''" z] star
    by auto
  then show ?thesis
    unfolding matchBytesCopied_def re_search_iff by blast
qed

lemma matchRecords_iff:
  "matchRecords x \<longleftrightarrow>
     (\<exists>pre post. x = pre @ ''records in'' @ post \<or> x = pre @ ''records out'' @ post)"
  unfolding matchRecords_def contains_literal_iff by blast


section \<open>Greedy captures\<close>

lemma re_match_star_greedy:
  assumes "\<forall>c\<in>set u. p c" and "re_match r v = Some gs" and "v = [] \<or> \<not> p (hd v)"
  shows "re_match ((p, Star) # r) (u @ v) = Some (u # gs)"
  using assms(1)
proof (induction u)
  case Nil
  show ?case
    using assms(2,3) by (cases v) simp_all
next
  case (Cons c u)
  then show ?case by simp
qed

lemma re_match_plus_greedy:
  assumes "u \<noteq> []" and "\<forall>c\<in>set u. p c" and "re_match r v = Some gs"
    and "v = [] \<or> \<not> p (hd v)"
  shows "re_match ((p, Plus) # r) (u @ v) = Some (u # gs)"
proof -
  obtain c u' where u: "u = c # u'"
    using assms(1) by (cases u) auto
  have "re_match ((p, Star) # r) (u' @ v) = Some (u' # gs)"
    using re_match_star_greedy [of u' p r v gs] assms u by simp
  then show ?thesis
    using assms(2) u by simp
qed

lemma re_match_opt_skip:
  assumes "re_match r v = Some gs" and "v = [] \<or> \<not> p (hd v)"
  shows "re_match ((p, Opt) # r) v = Some ([] # gs)"
  using assms by (cases v) simp_all

lemma re_match_opt_take:
  assumes "p c" and "re_match r v = Some gs"
  shows "re_match ((p, Opt) # r) (c # v) = Some ([c] # gs)"
  using assms by simp

lemma re_search_first:
  assumes "\<forall>k<length pre. re_match r (drop k (pre @ y)) = None" and "re_match r y = Some gs"
  shows "re_search r (pre @ y) = Some gs"
  using assms(1)
proof (induction pre)
  case Nil
  show ?case
    using assms(2) by (cases y) simp_all
next
  case (Cons c pre)
  have "re_match r (c # pre @ y) = None"
    using Cons.prems [rule_format, of 0] by simp
  moreover have "\<forall>k<length pre. re_match r (drop k (pre @ y)) = None"
  proof (intro allI impI)
    fix k
    assume "k < length pre"
    then show "re_match r (drop k (pre @ y)) = None"
      using Cons.prems [rule_format, of "Suc k"] by simp
  qed
  ultimately show ?case
    using Cons.IH by simp
qed

lemma no_earlier_Nil: "(\<forall>k<length ([]::string). re_match r (drop k ([] @ y)) = None) \<longleftrightarrow> True"
  by simp

lemma no_earlier_Cons:
  "(\<forall>k<length (c # pre). re_match r (drop k ((c # pre) @ y)) = None)
     \<longleftrightarrow> re_match r (c # pre @ y) = None \<and> (\<forall>k<length pre. re_match r (drop k (pre @ y)) = None)"
proof
  assume all: "\<forall>k<length (c # pre). re_match r (drop k ((c # pre) @ y)) = None"
  have "re_match r (c # pre @ y) = None"
    using all [rule_format, of 0] by simp
  moreover have "re_match r (drop k (pre @ y)) = None" if "k < length pre" for k
    using all [rule_format, of "Suc k"] that by simp
  ultimately show "re_match r (c # pre @ y) = None
      \<and> (\<forall>k<length pre. re_match r (drop k (pre @ y)) = None)"
    by blast
next
  assume rhs: "re_match r (c # pre @ y) = None
      \<and> (\<forall>k<length pre. re_match r (drop k (pre @ y)) = None)"
  show "\<forall>k<length (c # pre). re_match r (drop k ((c # pre) @ y)) = None"
  proof (intro allI impI)
    fix k
    assume "k < length (c # pre)"
    then show "re_match r (drop k ((c # pre) @ y)) = None"
      using rhs by (cases k) simp_all
  qed
qed

lemma bytesMatch_leading:
  assumes "N \<noteq> []" and "\<forall>c\<in>set N. isDigit c" and "ws \<noteq> []" and "\<forall>c\<in>set ws. isSpace c"
  shows "bytesMatch (N @ ws @ ''bytes'' @ rest) = Some N"
proof -
  have lit: "re_match (lit ''bytes'') (''bytes'' @ rest) = Some (map (\<lambda>c. [c]) ''bytes'')"
    using re_match_lit_append [of "''bytes''" "[]" rest] by simp
  have "\<not> isSpace (hd (''bytes'' @ rest))"
    by (simp add: isSpace_def)
  then have sp: "re_match ((isSpace, Plus) # lit ''bytes'') (ws @ ''bytes'' @ rest)
      = Some (ws # map (\<lambda>c. [c]) ''bytes'')"
    using re_match_plus_greedy [OF assms(3,4) lit] by blast
  have "isSpace (hd ws)"
    using assms(3,4) by (cases ws) auto
  then have "\<not> isDigit (hd (ws @ ''bytes'' @ rest))"
    using assms(3) by (auto simp add: isSpace_def isDigit_def)
  then have "re_match bytesRe (N @ ws @ ''bytes'' @ rest) = Some (N # ws # map (\<lambda>c. [c]) ''bytes'')"
    unfolding bytesRe_def using re_match_plus_greedy [OF assms(1,2) sp] by simp
  then have "re_search bytesRe ([] @ N @ ws @ ''bytes'' @ rest)
      = Some (N # ws # map (\<lambda>c. [c]) ''bytes'')"
    by (intro re_search_first) simp_all
  then show ?thesis
    by (simp add: bytesMatch_def)
qed

lemma speedRe_at:
  assumes "R \<noteq> []" and "\<forall>c\<in>set R. isDigitOrPoint c" and "\<forall>c\<in>set ws. isSpace c"
    and "U = [] \<or> U = ''M'' \<or> U = ''G'' \<or> U = ''K''"
  shows "re_match speedRe (R @ ws @ U @ ''B/s'' @ rest) = Some (R # ws # U # map (\<lambda>c. [c]) ''B/s'')"
proof -
  have lit: "re_match (lit ''B/s'') (''B/s'' @ rest) = Some (map (\<lambda>c. [c]) ''B/s'')"
    using re_match_lit_append [of "''B/s''" "[]" rest] by simp
  have opt: "re_match ((isMGK, Opt) # lit ''B/s'') (U @ ''B/s'' @ rest)
      = Some (U # map (\<lambda>c. [c]) ''B/s'')"
  proof (cases "U = []")
    case True
    have "\<not> isMGK (hd (''B/s'' @ rest))"
      by (simp add: isMGK_def)
    then show ?thesis
      using re_match_opt_skip [OF lit, of isMGK] True by simp
  next
    case False
    then obtain m where m: "U = [m]" "isMGK m"
      using assms(4) by (auto simp add: isMGK_def)
    show ?thesis
      using re_match_opt_take [of isMGK m "lit ''B/s''" "''B/s'' @ rest"] m lit by simp
  qed
  have "\<not> isSpace (hd (U @ ''B/s'' @ rest))"
    using assms(4) by (auto simp add: isSpace_def)
  then have star: "re_match ((isSpace, Star) # (isMGK, Opt) # lit ''B/s'') (ws @ U @ ''B/s'' @ rest)
      = Some (ws # U # map (\<lambda>c. [c]) ''B/s'')"
    using re_match_star_greedy [OF assms(3) opt] by blast
  have "\<not> isDigitOrPoint (hd (ws @ U @ ''B/s'' @ rest))"
  proof (cases ws)
    case Nil
    then show ?thesis
      using assms(4) by (auto simp add: isDigitOrPoint_def isDigit_def)
  next
    case (Cons c cs)
    then have "isSpace c"
      using assms(3) by simp
    then show ?thesis
      using Cons by (auto simp add: isSpace_def isDigitOrPoint_def isDigit_def)
  qed
  then show ?thesis
    unfolding speedRe_def using re_match_plus_greedy [OF assms(1,2) star] by simp
qed

lemma speedMatch_first:
  assumes "R \<noteq> []" and "\<forall>c\<in>set R. isDigitOrPoint c" and "\<forall>c\<in>set ws. isSpace c"
    and "U = [] \<or> U = ''M'' \<or> U = ''G'' \<or> U = ''K''"
    and "\<forall>k<length pre. re_match speedRe (drop k (pre @ R @ ws @ U @ ''B/s'' @ rest)) = None"
  shows "speedMatch (pre @ R @ ws @ U @ ''B/s'' @ rest) = Some (R, U @ ''B/s'')"
  using re_search_first [OF assms(5) speedRe_at [OF assms(1-4)]]
  by (simp add: speedMatch_def)


section \<open>Decimal text\<close>

lemma digitChar_isDigit: "d < 10 \<Longrightarrow> isDigit (digitChar d)"
  by (simp add: digitChar_def isDigit_def)

lemma digitVal_digitChar: "d < 10 \<Longrightarrow> digitVal (digitChar d) = d"
  by (simp add: digitChar_def digitVal_def)

lemma showNat_not_Nil: "showNat n \<noteq> []"
  by (subst showNat.simps) simp

lemma showNat_digits: "\<forall>c\<in>set (showNat n). isDigit c"
proof (induction n rule: showNat.induct)
  case (1 n)
  show ?case
  proof (cases "n < 10")
    case True
    then show ?thesis
      by (subst showNat.simps) (simp add: digitChar_isDigit)
  next
    case False
    then show ?thesis
      using "1.IH" by (subst showNat.simps) (simp add: digitChar_isDigit)
  qed
qed

lemma parseInt_snoc: "parseInt (ds @ [c]) = parseInt ds * 10 + digitVal c"
  by (simp add: parseInt_def)

lemma parseInt_showNat: "parseInt (showNat n) = n"
proof (induction n rule: showNat.induct)
  case (1 n)
  show ?case
  proof (cases "n < 10")
    case True
    then show ?thesis
      by (subst showNat.simps) (simp add: parseInt_def digitVal_digitChar)
  next
    case False
    then have "parseInt (showNat (n div 10)) = n div 10"
      using "1.IH" by simp
    then show ?thesis
      using False by (subst showNat.simps) (simp add: parseInt_snoc digitVal_digitChar)
  qed
qed


section \<open>The metrics after a chunk\<close>

lemma ddData_bytesWritten:
  "bytesWritten (snd (ddData la c)) =
     (case c of
        Stderr output \<Rightarrow>
          (case bytesMatch output of Some digits \<Rightarrow> mbText digits | None \<Rightarrow> bytesWritten (snd la))
      | Stdout d \<Rightarrow> bytesWritten (snd la))"
  by (cases la; cases c) (simp_all add: setters Let_def split: option.splits prod.splits)

lemma ddData_speed:
  "speed (snd (ddData la c)) =
     (case c of
        Stderr output \<Rightarrow>
          (case speedMatch output of Some (num, unit) \<Rightarrow> num @ '' '' @ unit | None \<Rightarrow> speed (snd la))
      | Stdout d \<Rightarrow> speed (snd la))"
  by (cases la; cases c) (simp_all add: setters Let_def split: option.splits prod.splits)

lemma ddData_metrics_cong:
  "bytesWritten (snd la) = bytesWritten (snd lb) \<Longrightarrow>
     bytesWritten (snd (ddData la c)) = bytesWritten (snd (ddData lb c))"
  "speed (snd la) = speed (snd lb) \<Longrightarrow> speed (snd (ddData la c)) = speed (snd (ddData lb c))"
  by (simp_all add: ddData_bytesWritten ddData_speed split: chunk.splits option.splits)

lemma foldl_ddData_bytesWritten_cong:
  "bytesWritten (snd la) = bytesWritten (snd lb) \<Longrightarrow>
     bytesWritten (snd (foldl ddData la cs)) = bytesWritten (snd (foldl ddData lb cs))"
proof (induction cs arbitrary: la lb)
  case Nil
  then show ?case by simp
next
  case (Cons c cs)
  have "bytesWritten (snd (foldl ddData (ddData la c) cs))
      = bytesWritten (snd (foldl ddData (ddData lb c) cs))"
    by (rule Cons.IH) (rule ddData_metrics_cong(1) [OF Cons.prems])
  then show ?case by simp
qed

lemma foldl_ddData_speed_cong:
  "speed (snd la) = speed (snd lb) \<Longrightarrow>
     speed (snd (foldl ddData la cs)) = speed (snd (foldl ddData lb cs))"
proof (induction cs arbitrary: la lb)
  case Nil
  then show ?case by simp
next
  case (Cons c cs)
  have "speed (snd (foldl ddData (ddData la c) cs)) = speed (snd (foldl ddData (ddData lb c) cs))"
    by (rule Cons.IH) (rule ddData_metrics_cong(2) [OF Cons.prems])
  then show ?case by simp
qed


section \<open>The metrics and the inputs over a whole run\<close>

lemma runShrink_keeps:
  "bytesWritten (runShrink e a) = bytesWritten a" "speed (runShrink e a) = speed a"
  "source (runShrink e a) = source a" "mode (runShrink e a) = mode a"
  by (cases "outcome (pishrink e)";
      simp add: runShrink_def Let_def setters foldl_pishrinkData_frame)+

lemma runPishrink_keeps:
  "bytesWritten (runPishrink e a) = bytesWritten a" "speed (runPishrink e a) = speed a"
  "source (runPishrink e a) = source a" "mode (runPishrink e a) = mode a"
  by (cases "outcome (download e)";
      simp add: runPishrink_def Let_def setters runShrink_keeps)+

lemma runBackup_keeps:
  "source (runBackup e a) = source a" "mode (runBackup e a) = mode a"
  by (cases "outcome (dd e)";
      simp add: runBackup_def Let_def case_prod_beta setters foldl_ddData_frame runPishrink_keeps)+

lemma runBackup_metrics:
  "bytesWritten (runBackup e a) = bytesWritten (snd (foldl ddData ([], a) (chunks (dd e))))"
  "speed (runBackup e a) = speed (snd (foldl ddData ([], a) (chunks (dd e))))"
proof -
  let ?x = "spawn ''sudo'' (''dd'' # ddArgs e a)
              (addLog (''Starting backup from '' @ source a @ '' to '' @ destination a)
                (setState BACKING_UP a))"
  have "bytesWritten (runBackup e a) = bytesWritten (snd (foldl ddData ([], ?x) (chunks (dd e))))"
    "speed (runBackup e a) = speed (snd (foldl ddData ([], ?x) (chunks (dd e))))"
    by (cases "outcome (dd e)";
        simp add: runBackup_def Let_def case_prod_beta runPishrink_keeps setState_def
          setError_def addLog_def)+
  moreover have "bytesWritten (snd (foldl ddData ([], ?x) (chunks (dd e))))
      = bytesWritten (snd (foldl ddData ([], a) (chunks (dd e))))"
    by (rule foldl_ddData_bytesWritten_cong) (simp add: setters)
  moreover have "speed (snd (foldl ddData ([], ?x) (chunks (dd e))))
      = speed (snd (foldl ddData ([], a) (chunks (dd e))))"
    by (rule foldl_ddData_speed_cong) (simp add: setters)
  ultimately show
    "bytesWritten (runBackup e a) = bytesWritten (snd (foldl ddData ([], a) (chunks (dd e))))"
    "speed (runBackup e a) = speed (snd (foldl ddData ([], a) (chunks (dd e))))"
    by simp_all
qed

lemma checkSourceAndBackup_keeps:
  "source (checkSourceAndBackup e a) = source a"
  "destination (checkSourceAndBackup e a) = destination a"
  "mode (checkSourceAndBackup e a) = mode a"
  by (cases "outcome (checkSource e)";
      simp add: checkSourceAndBackup_def Let_def setters runBackup_keeps runBackup_destination)+

lemma checkSourceAndBackup_metrics:
  "bytesWritten (checkSourceAndBackup e a) =
     (if outcome (checkSource e) = Closed (Some 0)
      then bytesWritten (snd (foldl ddData ([], a) (chunks (dd e)))) else bytesWritten a)"
  "speed (checkSourceAndBackup e a) =
     (if outcome (checkSource e) = Closed (Some 0)
      then speed (snd (foldl ddData ([], a) (chunks (dd e)))) else speed a)"
proof -
  let ?x = "spawn ''sudo'' [''test'', ''-e'', source a] (addLog ''Checking source device...'' a)"
  have x: "bytesWritten (snd (foldl ddData ([], ?x) (chunks (dd e))))
      = bytesWritten (snd (foldl ddData ([], a) (chunks (dd e))))"
    "speed (snd (foldl ddData ([], ?x) (chunks (dd e))))
      = speed (snd (foldl ddData ([], a) (chunks (dd e))))"
    by (rule foldl_ddData_bytesWritten_cong, simp add: setters)
       (rule foldl_ddData_speed_cong, simp add: setters)
  show "bytesWritten (checkSourceAndBackup e a) =
     (if outcome (checkSource e) = Closed (Some 0)
      then bytesWritten (snd (foldl ddData ([], a) (chunks (dd e)))) else bytesWritten a)"
    using x(1)
    by (cases "outcome (checkSource e)")
       (simp_all add: checkSourceAndBackup_def Let_def runBackup_metrics setState_def setError_def,
        simp_all add: setters)
  show "speed (checkSourceAndBackup e a) =
     (if outcome (checkSource e) = Closed (Some 0)
      then speed (snd (foldl ddData ([], a) (chunks (dd e)))) else speed a)"
    using x(2)
    by (cases "outcome (checkSource e)")
       (simp_all add: checkSourceAndBackup_def Let_def runBackup_metrics setState_def setError_def,
        simp_all add: setters)
qed

lemma validateAndBackup_metrics:
  "bytesWritten (validateAndBackup e a) =
     (if outcome (sudoCheck e) = Closed (Some 0) \<and> outcome (checkSource e) = Closed (Some 0)
      then bytesWritten (snd (foldl ddData ([], a) (chunks (dd e)))) else bytesWritten a)"
  "speed (validateAndBackup e a) =
     (if outcome (sudoCheck e) = Closed (Some 0) \<and> outcome (checkSource e) = Closed (Some 0)
      then speed (snd (foldl ddData ([], a) (chunks (dd e)))) else speed a)"
  "source (validateAndBackup e a) = source a"
  "destination (validateAndBackup e a) = destination a"
  "mode (validateAndBackup e a) = mode a"
proof -
  consider (ok) "outcome (sudoCheck e) = Closed (Some 0)"
    | (failed) code where "outcome (sudoCheck e) = Closed code" "code \<noteq> Some 0"
    | (nostart) m where "outcome (sudoCheck e) = SpawnError m"
    by (cases "outcome (sudoCheck e)") auto
  then have "bytesWritten (validateAndBackup e a) =
     (if outcome (sudoCheck e) = Closed (Some 0) \<and> outcome (checkSource e) = Closed (Some 0)
      then bytesWritten (snd (foldl ddData ([], a) (chunks (dd e)))) else bytesWritten a)
    \<and> speed (validateAndBackup e a) =
     (if outcome (sudoCheck e) = Closed (Some 0) \<and> outcome (checkSource e) = Closed (Some 0)
      then speed (snd (foldl ddData ([], a) (chunks (dd e)))) else speed a)
    \<and> source (validateAndBackup e a) = source a
    \<and> destination (validateAndBackup e a) = destination a
    \<and> mode (validateAndBackup e a) = mode a"
  proof cases
    case ok
    obtain a' where a': "validateAndBackup e a = checkSourceAndBackup e a'"
      "source a' = source a" "destination a' = destination a" "mode a' = mode a"
      "bytesWritten a' = bytesWritten a" "speed a' = speed a"
      using validateAndBackup_continues [OF ok, of a] by blast
    have "bytesWritten (snd (foldl ddData ([], a') (chunks (dd e))))
        = bytesWritten (snd (foldl ddData ([], a) (chunks (dd e))))"
      by (rule foldl_ddData_bytesWritten_cong) (simp add: a')
    moreover have "speed (snd (foldl ddData ([], a') (chunks (dd e))))
        = speed (snd (foldl ddData ([], a) (chunks (dd e))))"
      by (rule foldl_ddData_speed_cong) (simp add: a')
    ultimately show ?thesis
      by (simp add: a' ok checkSourceAndBackup_metrics checkSourceAndBackup_keeps)
  next
    case failed
    then show ?thesis
      by (simp add: validateAndBackup_sudo_failed [OF failed] setters)
  next
    case nostart
    then show ?thesis
      by (simp add: validateAndBackup_def Let_def setters)
  qed
  then show
    "bytesWritten (validateAndBackup e a) =
     (if outcome (sudoCheck e) = Closed (Some 0) \<and> outcome (checkSource e) = Closed (Some 0)
      then bytesWritten (snd (foldl ddData ([], a) (chunks (dd e)))) else bytesWritten a)"
    "speed (validateAndBackup e a) =
     (if outcome (sudoCheck e) = Closed (Some 0) \<and> outcome (checkSource e) = Closed (Some 0)
      then speed (snd (foldl ddData ([], a) (chunks (dd e)))) else speed a)"
    "source (validateAndBackup e a) = source a"
    "destination (validateAndBackup e a) = destination a"
    "mode (validateAndBackup e a) = mode a"
    by blast+
qed

lemma runRestore_metrics:
  "bytesWritten (runRestore e a) = bytesWritten (snd (foldl ddData ([], a) (chunks (ddProcess e))))"
  "speed (runRestore e a) = speed (snd (foldl ddData ([], a) (chunks (ddProcess e))))"
  "source (runRestore e a) = source a" "destination (runRestore e a) = destination a"
  "mode (runRestore e a) = mode a"
proof -
  let ?x = "(if isGzipped a
            then spawn ''sudo'' [''bash'', ''-c'', gunzipPipeline a]
                   (addLog ''Decompressing and writing image...''
                     (addLog (''Restoring '' @ source a @ '' to '' @ destination a)
                       (setState RESTORING a)))
            else spawn ''sudo'' (''dd'' # ddArgs e a)
                   (addLog (''Restoring '' @ source a @ '' to '' @ destination a)
                     (setState RESTORING a)))"
  have "bytesWritten (runRestore e a) = bytesWritten (snd (foldl ddData ([], ?x) (chunks (ddProcess e))))"
    "speed (runRestore e a) = speed (snd (foldl ddData ([], ?x) (chunks (ddProcess e))))"
    by (cases "outcome (ddProcess e)";
        simp add: runRestore_def Let_def case_prod_beta setState_def setError_def addLog_def)+
  moreover have "bytesWritten (snd (foldl ddData ([], ?x) (chunks (ddProcess e))))
      = bytesWritten (snd (foldl ddData ([], a) (chunks (ddProcess e))))"
    by (rule foldl_ddData_bytesWritten_cong) (simp add: setters)
  moreover have "speed (snd (foldl ddData ([], ?x) (chunks (ddProcess e))))
      = speed (snd (foldl ddData ([], a) (chunks (ddProcess e))))"
    by (rule foldl_ddData_speed_cong) (simp add: setters)
  ultimately show
    "bytesWritten (runRestore e a) = bytesWritten (snd (foldl ddData ([], a) (chunks (ddProcess e))))"
    "speed (runRestore e a) = speed (snd (foldl ddData ([], a) (chunks (ddProcess e))))"
    by simp_all
  show "source (runRestore e a) = source a" "destination (runRestore e a) = destination a"
    "mode (runRestore e a) = mode a"
    by (cases "outcome (ddProcess e)";
        simp add: runRestore_def Let_def case_prod_beta setters foldl_ddData_frame)+
qed

lemma validateAndRestore_metrics:
  "bytesWritten (validateAndRestore e a) =
     (if outcome (sudoCheck e) = Closed (Some 0)
      then bytesWritten (snd (foldl ddData ([], a) (chunks (ddProcess e)))) else bytesWritten a)"
  "speed (validateAndRestore e a) =
     (if outcome (sudoCheck e) = Closed (Some 0)
      then speed (snd (foldl ddData ([], a) (chunks (ddProcess e)))) else speed a)"
  "source (validateAndRestore e a) = source a"
  "destination (validateAndRestore e a) = destination a"
  "mode (validateAndRestore e a) = mode a"
proof -
  consider (ok) "outcome (sudoCheck e) = Closed (Some 0)"
    | (failed) code where "outcome (sudoCheck e) = Closed code" "code \<noteq> Some 0"
    | (nostart) m where "outcome (sudoCheck e) = SpawnError m"
    by (cases "outcome (sudoCheck e)") auto
  then have "bytesWritten (validateAndRestore e a) =
     (if outcome (sudoCheck e) = Closed (Some 0)
      then bytesWritten (snd (foldl ddData ([], a) (chunks (ddProcess e)))) else bytesWritten a)
    \<and> speed (validateAndRestore e a) =
     (if outcome (sudoCheck e) = Closed (Some 0)
      then speed (snd (foldl ddData ([], a) (chunks (ddProcess e)))) else speed a)
    \<and> source (validateAndRestore e a) = source a
    \<and> destination (validateAndRestore e a) = destination a
    \<and> mode (validateAndRestore e a) = mode a"
  proof cases
    case ok
    obtain a' where a': "validateAndRestore e a = runRestore e a'"
      "source a' = source a" "destination a' = destination a" "mode a' = mode a"
      "bytesWritten a' = bytesWritten a" "speed a' = speed a"
      using validateAndRestore_continues [OF ok, of a] by blast
    have "bytesWritten (snd (foldl ddData ([], a') (chunks (ddProcess e))))
        = bytesWritten (snd (foldl ddData ([], a) (chunks (ddProcess e))))"
      by (rule foldl_ddData_bytesWritten_cong) (simp add: a')
    moreover have "speed (snd (foldl ddData ([], a') (chunks (ddProcess e))))
        = speed (snd (foldl ddData ([], a) (chunks (ddProcess e))))"
      by (rule foldl_ddData_speed_cong) (simp add: a')
    ultimately show ?thesis
      by (simp add: a' ok runRestore_metrics)
  next
    case failed
    then show ?thesis
      by (simp add: validateAndRestore_sudo_failed [OF failed] setters)
  next
    case nostart
    then show ?thesis
      by (simp add: validateAndRestore_def Let_def setters)
  qed
  then show
    "bytesWritten (validateAndRestore e a) =
     (if outcome (sudoCheck e) = Closed (Some 0)
      then bytesWritten (snd (foldl ddData ([], a) (chunks (ddProcess e)))) else bytesWritten a)"
    "speed (validateAndRestore e a) =
     (if outcome (sudoCheck e) = Closed (Some 0)
      then speed (snd (foldl ddData ([], a) (chunks (ddProcess e)))) else speed a)"
    "source (validateAndRestore e a) = source a"
    "destination (validateAndRestore e a) = destination a"
    "mode (validateAndRestore e a) = mode a"
    by blast+
qed


section \<open>Facts about the concrete runs\<close>

lemmas concrete =
  envOk_def quiet_def says_def appBackup_def appRestore_def initialApp_def
  menuSelect_def selectSource_def selectDest_def

lemma resource_busy_is_error_line:
  "lastErrorText [Stderr ''dd: /dev/rdisk9: Resource busy''] = ''dd: /dev/rdisk9: Resource busy''"
  by code_simp

lemma blank_chunk_is_error_line:
  "isErrorLine [CHR 0x0A]
   \<and> lastErrorText [Stderr ''dd: /dev/rdisk9: Resource busy'', Stderr [CHR 0x0A]] = []"
  by code_simp

lemma lastErrorText_Nil: "lastErrorText [] = []"
  by (simp add: lastErrorText_def)

lemma showCode_1: "showCode (Some 1) = ''1''"
  by (simp add: showCode_def showInt_def showNat.simps digitChar_def)

lemma diskMatch_rdisk9: "diskMatch ''/dev/rdisk9'' = Some ''disk9''"
  by code_simp

lemma diskMatch_sdb: "diskMatch ''/dev/sdb'' = None"
  by code_simp

lemma showNat_1234567890: "showNat 1234567890 = ''1234567890''"
  by (simp add: showNat.simps digitChar_def)

lemma floor_sample: "\<lfloor>(1234567890::rat) / (1024 * 1024) * 10 + 1 / 2\<rfloor> = 11774"
  by (rule floor_unique) simp_all

lemma showNat_1177: "showNat 1177 = ''1177''" "showNat 4 = ''4''"
  by (simp_all add: showNat.simps digitChar_def)

lemma mb_1234567890: "toFixed1 (of_nat 1234567890 / (1024 * 1024)) = ''1177.4''"
  using floor_sample by (simp add: toFixed1_def showNat_1177)

lemma sample_no_earlier_rate:
  "\<forall>k<length ''1234567890 bytes (1.2 GB, 1.1 GiB) copied, 10.5 s, ''.
     re_match speedRe
       (drop k (''1234567890 bytes (1.2 GB, 1.1 GiB) copied, 10.5 s, '' @ ''123 MB/s'')) = None"
  unfolding no_earlier_Cons no_earlier_Nil
  by (simp add: speedRe_def lit_def isDigitOrPoint_def isDigit_def isSpace_def isMGK_def)

lemma speedMatch_earlier_rate: "speedMatch ''1 bytes 2 B/s copied 3 MB/s'' = Some (''2'', ''B/s'')"
  by code_simp

lemma bytesMatch_one_mebibyte: "bytesMatch ''1048576 bytes copied'' = Some ''1048576''"
  by code_simp

lemma mbText_one_mebibyte: "mbText ''1048576'' = ''1.0 MB''"
proof -
  have "parseInt ''1048576'' = 1048576"
    by (simp add: parseInt_def digitVal_def)
  moreover have "\<lfloor>(of_nat 1048576 :: rat) / 1024 / 1024 * 10 + 1 / 2\<rfloor> = 10"
    by (rule floor_unique) simp_all
  moreover have "showNat 1 = ''1''" "showNat 0 = ''0''"
    by (simp_all add: showNat.simps digitChar_def)
  ultimately show ?thesis
    by (simp add: mbText_def toFixed1_def)
qed


section \<open>The claims\<close>




text \<open>
  C2. When the copy subprocess exits with code 0, a backup goes from \<open>BACKING_UP\<close> to
  \<open>SHRINKING\<close> (never directly to \<open>COMPLETE\<close>) and a restore goes from \<open>RESTORING\<close> to
  \<open>COMPLETE\<close>; a restore never enters \<open>SHRINKING\<close>, whatever its subprocesses do.
\<close>

theorem copy_exit_zero_transitions:
  "(outcome (dd e) = Closed (Some 0) \<longrightarrow>
      (\<exists>rest. visited (runBackup e a) = visited a @ BACKING_UP # SHRINKING # rest))
   \<and> (outcome (ddProcess e) = Closed (Some 0) \<longrightarrow>
        visited (runRestore e a) = visited a @ [RESTORING, COMPLETE]
      \<and> state (runRestore e a) = COMPLETE)
   \<and> (SHRINKING \<notin> set (visited a) \<longrightarrow> SHRINKING \<notin> set (visited (validateAndRestore e a)))"
proof (intro conjI impI)
  assume "outcome (dd e) = Closed (Some 0)"
  then show "\<exists>rest. visited (runBackup e a) = visited a @ BACKING_UP # SHRINKING # rest"
    by (simp add: runBackup_visited)
next
  assume "outcome (ddProcess e) = Closed (Some 0)"
  then show "visited (runRestore e a) = visited a @ [RESTORING, COMPLETE]"
    and "state (runRestore e a) = COMPLETE"
    by (simp_all add: runRestore_visited runRestore_state)
next
  assume "SHRINKING \<notin> set (visited a)"
  then show "SHRINKING \<notin> set (visited (validateAndRestore e a))"
    using validateAndRestore_no_shrinking [of e a] by auto
qed

theorem copy_exit_zero_transitions_witness:
  "outcome (dd envOk) = Closed (Some 0)
   \<and> outcome (ddProcess envOk) = Closed (Some 0)
   \<and> SHRINKING \<notin> set (visited appRestore)
   \<and> (\<exists>rest. visited (runBackup envOk appBackup) = visited appBackup @ BACKING_UP # SHRINKING # rest)
   \<and> visited (runRestore envOk appRestore) = visited appRestore @ [RESTORING, COMPLETE]
   \<and> SHRINKING \<notin> set (visited (validateAndRestore envOk appRestore))"
  using copy_exit_zero_transitions [of envOk appBackup]
    copy_exit_zero_transitions [of envOk appRestore]
  by (simp add: concrete setters)


text \<open>
  C3. When the privilege check \<open>sudo -v\<close> exits with a code other than 0, the run goes
  from \<open>VALIDATING\<close> straight to \<open>ERROR\<close>, the error text contains
  \<open>authentication failed\<close>, and \<open>sudo -v\<close> is the only subprocess started: no unmount and
  no copy. The same holds for a backup and for a restore.
\<close>

theorem privilege_failure_aborts:
  assumes "outcome (sudoCheck e) = Closed code" and "code \<noteq> Some 0"
  shows "state (validateAndBackup e a) = ERROR
       \<and> (\<exists>pre post. error (validateAndBackup e a) = pre @ ''authentication failed'' @ post)
       \<and> visited (validateAndBackup e a) = visited a @ [VALIDATING, ERROR]
       \<and> spawned (validateAndBackup e a) = spawned a @ [(''sudo'', [''-v''])]
       \<and> state (validateAndRestore e a) = ERROR
       \<and> (\<exists>pre post. error (validateAndRestore e a) = pre @ ''authentication failed'' @ post)
       \<and> visited (validateAndRestore e a) = visited a @ [VALIDATING, ERROR]
       \<and> spawned (validateAndRestore e a) = spawned a @ [(''sudo'', [''-v''])]"
proof -
  have b: "error (validateAndBackup e a) = ''sudo authentication failed. Please run with sudo access.''"
    and r: "error (validateAndRestore e a) = ''sudo authentication failed. Please run with sudo access.''"
    by (simp_all add: validateAndBackup_sudo_failed [OF assms]
          validateAndRestore_sudo_failed [OF assms] setters)
  have "\<exists>pre post. error (validateAndBackup e a) = pre @ ''authentication failed'' @ post"
    unfolding b by (rule exI [of _ "''sudo ''"], rule exI [of _ "''. Please run with sudo access.''"]) simp
  moreover have "\<exists>pre post. error (validateAndRestore e a) = pre @ ''authentication failed'' @ post"
    unfolding r by (rule exI [of _ "''sudo ''"], rule exI [of _ "''. Please run with sudo access.''"]) simp
  ultimately show ?thesis
    by (simp add: validateAndBackup_sudo_failed [OF assms]
          validateAndRestore_sudo_failed [OF assms] setters)
qed

theorem privilege_failure_aborts_witness:
  "outcome (sudoCheck (envOk\<lparr>sudoCheck := quiet 1\<rparr>)) = Closed (Some 1) \<and> Some (1::int) \<noteq> Some 0
   \<and> state (validateAndBackup (envOk\<lparr>sudoCheck := quiet 1\<rparr>) appBackup) = ERROR
   \<and> spawned (validateAndBackup (envOk\<lparr>sudoCheck := quiet 1\<rparr>) appBackup) = [(''sudo'', [''-v''])]
   \<and> visited (validateAndRestore (envOk\<lparr>sudoCheck := quiet 1\<rparr>) appRestore)
       = [SELECT_SOURCE, SELECT_DEST, CONFIRM, VALIDATING, ERROR]"
  using privilege_failure_aborts [of "envOk\<lparr>sudoCheck := quiet 1\<rparr>" "Some 1" appBackup]
    privilege_failure_aborts [of "envOk\<lparr>sudoCheck := quiet 1\<rparr>" "Some 1" appRestore]
  by (simp add: concrete setters)


text \<open>
  C4 (amended). When the copy subprocess exits with a code other than 0, the run enters
  \<open>ERROR\<close> and the error text is the stage's prefix (\<open>dd failed: \<close> for a backup,
  \<open>Restore failed: \<close> for a restore) followed by \<open>lastErrorText\<close>, the trimmed last
  standard-error chunk classified as an error line, when that text is not empty, and by
  \<open>exit code \<close> and the code otherwise: when no such chunk was seen or the last one is
  white space only.
\<close>

theorem copy_failure_reason:
  assumes "code \<noteq> Some 0"
  shows "(outcome (dd e) = Closed code \<longrightarrow>
            state (runBackup e a) = ERROR
          \<and> error (runBackup e a) =
              ''dd failed: '' @ (if lastErrorText (chunks (dd e)) \<noteq> []
                                then lastErrorText (chunks (dd e))
                                else ''exit code '' @ showCode code))
       \<and> (outcome (ddProcess e) = Closed code \<longrightarrow>
            state (runRestore e a) = ERROR
          \<and> error (runRestore e a) =
              ''Restore failed: '' @ (if lastErrorText (chunks (ddProcess e)) \<noteq> []
                                     then lastErrorText (chunks (ddProcess e))
                                     else ''exit code '' @ showCode code))"
  using assms
  by (simp add: runBackup_state runRestore_state runBackup_error_failed runRestore_error_failed
        errorMsg_def)

theorem copy_failure_reason_witness:
  "Some (1::int) \<noteq> Some 0
   \<and> outcome (dd (envOk\<lparr>dd := says ''dd: /dev/rdisk9: Resource busy'' 1\<rparr>)) = Closed (Some 1)
   \<and> error (runBackup (envOk\<lparr>dd := says ''dd: /dev/rdisk9: Resource busy'' 1\<rparr>) appBackup)
       = ''dd failed: dd: /dev/rdisk9: Resource busy''
   \<and> outcome (ddProcess (envOk\<lparr>ddProcess := quiet 1\<rparr>)) = Closed (Some 1)
   \<and> error (runRestore (envOk\<lparr>ddProcess := quiet 1\<rparr>) appRestore) = ''Restore failed: exit code 1''"
  using copy_failure_reason
      [of "Some 1" "envOk\<lparr>dd := says ''dd: /dev/rdisk9: Resource busy'' 1\<rparr>" appBackup]
    copy_failure_reason [of "Some 1" "envOk\<lparr>ddProcess := quiet 1\<rparr>" appRestore]
  by (simp add: envOk_def quiet_def says_def resource_busy_is_error_line showCode_1
        lastErrorText_Nil)

text \<open>
  C4 as stated fails. With the single standard-error chunk
  \<open>dd: /dev/rdisk9: Resource busy\<close> and exit code 1, the error text is that line behind
  the prefix \<open>dd failed: \<close>, not the line itself; and when that chunk is followed by a
  chunk holding only a line feed, which is classified as an error line too, the error
  text falls back to the exit code although such chunks were seen.
\<close>

theorem copy_failure_reason_counterexample:
  "error (runBackup (envOk\<lparr>dd := says ''dd: /dev/rdisk9: Resource busy'' 1\<rparr>) appBackup)
     \<noteq> ''dd: /dev/rdisk9: Resource busy''
   \<and> isErrorLine [CHR 0x0A]
   \<and> error (runBackup
         (envOk\<lparr>dd := \<lparr>chunks = [Stderr ''dd: /dev/rdisk9: Resource busy'', Stderr [CHR 0x0A]],
                       outcome = Closed (Some 1)\<rparr>\<rparr>) appBackup)
       = ''dd failed: exit code 1''"
proof -
  have one: "Some (1::int) \<noteq> Some 0"
    by simp
  have "error (runBackup (envOk\<lparr>dd := says ''dd: /dev/rdisk9: Resource busy'' 1\<rparr>) appBackup)
          = ''dd failed: dd: /dev/rdisk9: Resource busy''"
    using runBackup_error_failed
      [of "envOk\<lparr>dd := says ''dd: /dev/rdisk9: Resource busy'' 1\<rparr>" "Some 1" appBackup]
    by (simp add: envOk_def quiet_def says_def resource_busy_is_error_line errorMsg_def)
  moreover have "error (runBackup
         (envOk\<lparr>dd := \<lparr>chunks = [Stderr ''dd: /dev/rdisk9: Resource busy'', Stderr [CHR 0x0A]],
                       outcome = Closed (Some 1)\<rparr>\<rparr>) appBackup)
       = ''dd failed: exit code 1''"
    using runBackup_error_failed
      [of "envOk\<lparr>dd := \<lparr>chunks = [Stderr ''dd: /dev/rdisk9: Resource busy'', Stderr [CHR 0x0A]],
                       outcome = Closed (Some 1)\<rparr>\<rparr>" "Some 1" appBackup]
    by (simp add: envOk_def quiet_def blank_chunk_is_error_line errorMsg_def showCode_1)
  ultimately show ?thesis
    using blank_chunk_is_error_line by simp
qed


text \<open>
  C5. A chunk is classified as an error line exactly when it contains neither \<open>bytes\<close>
  followed later on the same line by \<open>copied\<close> (the pattern \<open>/bytes.*copied/\<close>, whose
  \<open>.\<close> does not cross a line terminator) nor \<open>records in\<close> or \<open>records out\<close>. In
  particular no chunk containing \<open>records in\<close> or \<open>records out\<close> is an error line.
\<close>

theorem error_line_classification:
  "(isErrorLine chunk \<longleftrightarrow>
      \<not> (\<exists>pre mid post. chunk = pre @ ''bytes'' @ mid @ ''copied'' @ post
             \<and> (\<forall>c\<in>set mid. \<not> isLineTerminator c))
    \<and> \<not> (\<exists>pre post. chunk = pre @ ''records in'' @ post \<or> chunk = pre @ ''records out'' @ post))
   \<and> \<not> isErrorLine (before @ ''records in'' @ after)
   \<and> \<not> isErrorLine (before @ ''records out'' @ after)"
proof -
  have "matchRecords (before @ ''records in'' @ after)"
    "matchRecords (before @ ''records out'' @ after)"
    unfolding matchRecords_iff by blast+
  then show ?thesis
    unfolding isErrorLine_def matchBytesCopied_iff [symmetric] matchRecords_iff [symmetric]
    by simp
qed

theorem error_line_classification_witness:
  "\<not> isErrorLine ''512 bytes copied''
   \<and> \<not> isErrorLine ''1+0 records in''
   \<and> \<not> isErrorLine ''1+0 records out''"
proof -
  have sp: "\<forall>c\<in>set '' ''. \<not> isLineTerminator c"
    by (simp add: isLineTerminator_def)
  have "''512 bytes copied'' = ''512 '' @ ''bytes'' @ '' '' @ ''copied'' @ []"
    by simp
  with sp have "\<exists>pre mid post. ''512 bytes copied'' = pre @ ''bytes'' @ mid @ ''copied'' @ post
      \<and> (\<forall>c\<in>set mid. \<not> isLineTerminator c)"
    by blast
  then have "\<not> isErrorLine ''512 bytes copied''"
    using error_line_classification [of "''512 bytes copied''"] by blast
  moreover have "\<not> isErrorLine ''1+0 records in''" "\<not> isErrorLine ''1+0 records out''"
    using error_line_classification [of "[]" "''1+0 ''" "[]"] by simp_all
  ultimately show ?thesis
    by blast
qed


text \<open>
  C6 (amended). Let a chunk start with the decimal text of a byte count \<open>n\<close> below
  \<open>2^53\<close>, followed by white space and \<open>bytes\<close>, and later, after \<open>copied\<close>, hold a run
  \<open>R\<close> of digits and points followed by optional white space and one of the units
  \<open>B/s\<close>, \<open>KB/s\<close>, \<open>MB/s\<close>, \<open>GB/s\<close>; and let no position before \<open>R\<close> start a match of
  the rate pattern \<open>/([\d.]+)\s*([MGK]?B\/s)/\<close>. Then the byte pattern captures the text of
  \<open>n\<close>, which \<open>parseInt\<close> reads as \<open>n\<close>; the rate pattern captures \<open>R\<close> and the unit; and
  the controller shows \<open>n / 1024\<^sup>2\<close> to one decimal followed by \<open>MB\<close>, and \<open>R\<close>, a space
  and the unit as the speed.
\<close>

theorem progress_chunk_parsed:
  assumes "n < 2 ^ 53"
    and "ws \<noteq> []" and "\<forall>c\<in>set ws. isSpace c"
    and "R \<noteq> []" and "\<forall>c\<in>set R. isDigitOrPoint c"
    and "\<forall>c\<in>set ws'. isSpace c"
    and "U = [] \<or> U = ''M'' \<or> U = ''G'' \<or> U = ''K''"
    and "chunk = (showNat n @ ws @ ''bytes'' @ mid @ ''copied'' @ mid') @ R @ ws' @ U @ ''B/s'' @ rest"
    and "\<forall>k<length (showNat n @ ws @ ''bytes'' @ mid @ ''copied'' @ mid').
           re_match speedRe (drop k chunk) = None"
  shows "bytesMatch chunk = Some (showNat n) \<and> parseInt (showNat n) = n
       \<and> speedMatch chunk = Some (R, U @ ''B/s'')
       \<and> bytesWritten (snd (ddData (l, a) (Stderr chunk)))
           = toFixed1 (of_nat n / (1024 * 1024)) @ '' MB''
       \<and> speed (snd (ddData (l, a) (Stderr chunk))) = R @ '' '' @ U @ ''B/s''"
proof -
  have bytes: "bytesMatch chunk = Some (showNat n)"
    using bytesMatch_leading [OF showNat_not_Nil showNat_digits assms(2,3),
        of n "mid @ ''copied'' @ mid' @ R @ ws' @ U @ ''B/s'' @ rest"]
    by (simp add: assms(8))
  have rate: "speedMatch chunk = Some (R, U @ ''B/s'')"
    unfolding assms(8)
    by (rule speedMatch_first [OF assms(4,5,6,7)]) (use assms(8,9) in simp)
  have mb: "mbText (showNat n) = toFixed1 (of_nat n / (1024 * 1024)) @ '' MB''"
    by (simp add: mbText_def parseInt_showNat)
  have "bytesWritten (snd (ddData (l, a) (Stderr chunk))) = mbText (showNat n)"
    unfolding ddData_bytesWritten by (simp add: bytes)
  moreover have "speed (snd (ddData (l, a) (Stderr chunk))) = R @ '' '' @ U @ ''B/s''"
    unfolding ddData_speed by (simp add: rate)
  ultimately show ?thesis
    using bytes rate mb parseInt_showNat [of n] by simp
qed

theorem progress_chunk_parsed_witness:
  "(1234567890::nat) < 2 ^ 53
   \<and> bytesWritten (snd (ddData ([], initialApp)
        (Stderr ''1234567890 bytes (1.2 GB, 1.1 GiB) copied, 10.5 s, 123 MB/s''))) = ''1177.4 MB''
   \<and> speed (snd (ddData ([], initialApp)
        (Stderr ''1234567890 bytes (1.2 GB, 1.1 GiB) copied, 10.5 s, 123 MB/s''))) = ''123 MB/s''"
proof -
  let ?chunk = "''1234567890 bytes (1.2 GB, 1.1 GiB) copied, 10.5 s, 123 MB/s''"
  have small: "(1234567890::nat) < 2 ^ 53"
    by simp
  have ws: "'' '' \<noteq> []" "\<forall>c\<in>set '' ''. isSpace c"
    by (simp_all add: isSpace_def)
  have R: "''123'' \<noteq> []" "\<forall>c\<in>set ''123''. isDigitOrPoint c"
    by (simp_all add: isDigitOrPoint_def isDigit_def)
  have U: "''M'' = [] \<or> ''M'' = ''M'' \<or> ''M'' = ''G'' \<or> ''M'' = ''K''"
    by simp
  have shape: "?chunk = (showNat 1234567890 @ '' '' @ ''bytes'' @ '' (1.2 GB, 1.1 GiB) ''
      @ ''copied'' @ '', 10.5 s, '') @ ''123'' @ '' '' @ ''M'' @ ''B/s'' @ []"
    by (simp add: showNat_1234567890)
  have first: "\<forall>k<length (showNat 1234567890 @ '' '' @ ''bytes'' @ '' (1.2 GB, 1.1 GiB) ''
      @ ''copied'' @ '', 10.5 s, ''). re_match speedRe (drop k ?chunk) = None"
    using sample_no_earlier_rate by (simp add: showNat_1234567890)
  have shown: "bytesWritten (snd (ddData ([], initialApp) (Stderr ?chunk)))
        = toFixed1 (of_nat 1234567890 / (1024 * 1024)) @ '' MB''"
    and rate: "speed (snd (ddData ([], initialApp) (Stderr ?chunk))) = ''123'' @ '' '' @ ''M'' @ ''B/s''"
    using progress_chunk_parsed [OF small ws R ws(2) U shape first, of "[]" initialApp]
    by blast+
  have "bytesWritten (snd (ddData ([], initialApp) (Stderr ?chunk))) = ''1177.4 MB''"
    unfolding shown mb_1234567890 by simp
  moreover have "speed (snd (ddData ([], initialApp) (Stderr ?chunk))) = ''123 MB/s''"
    unfolding rate by simp
  ultimately show ?thesis
    using small by blast
qed

text \<open>
  C6 as stated fails: the chunk \<open>1 bytes 2 B/s copied 3 MB/s\<close> has the stated form with
  \<open>N = 1\<close> and \<open>R = 3\<close>, but the rate pattern matches first at \<open>2 B/s\<close>, and the speed
  shown is \<open>2 B/s\<close>, which does not contain \<open>3\<close>.
\<close>

theorem progress_chunk_parsed_counterexample:
  "speed (snd (ddData ([], initialApp) (Stderr ''1 bytes 2 B/s copied 3 MB/s''))) = ''2 B/s''
   \<and> CHR ''3'' \<notin> set (speed (snd (ddData ([], initialApp) (Stderr ''1 bytes 2 B/s copied 3 MB/s''))))"
proof -
  have "speed (snd (ddData ([], initialApp) (Stderr ''1 bytes 2 B/s copied 3 MB/s''))) = ''2 B/s''"
    unfolding ddData_speed by (simp add: speedMatch_earlier_rate)
  then show ?thesis
    by simp
qed






text \<open>
  C8. After a successful privilege check, when \<open>/r?(disk\d+)/\<close> finds no identifier in
  the relevant path (the source of a backup, the destination of a restore) or the
  platform is not \<open>darwin\<close>, no \<open>diskutil\<close> subprocess is started in the whole run, and
  the run goes straight on: a backup to the source existence probe, a restore to the copy
  stage.
\<close>

theorem no_identifier_no_unmount:
  assumes "outcome (sudoCheck e) = Closed (Some 0)"
  shows "(diskMatch (source a) = None \<or> platform e \<noteq> ''darwin'' \<longrightarrow>
            validateAndBackup e a =
              checkSourceAndBackup e
                (spawn ''sudo'' [''-v''] (addLog ''Validating sudo access...'' (setState VALIDATING a)))
          \<and> (''diskutil'' \<notin> fst ` set (spawned a) \<longrightarrow>
               ''diskutil'' \<notin> fst ` set (spawned (validateAndBackup e a))))
       \<and> (diskMatch (destination a) = None \<or> platform e \<noteq> ''darwin'' \<longrightarrow>
            validateAndRestore e a =
              runRestore e
                (spawn ''sudo'' [''-v''] (addLog ''Validating sudo access...'' (setState VALIDATING a)))
          \<and> RESTORING \<in> set (visited (validateAndRestore e a))
          \<and> (''diskutil'' \<notin> fst ` set (spawned a) \<longrightarrow>
               ''diskutil'' \<notin> fst ` set (spawned (validateAndRestore e a))))"
proof (intro conjI impI)
  let ?a1 = "spawn ''sudo'' [''-v''] (addLog ''Validating sudo access...'' (setState VALIDATING a))"
  have cmds: "fst ` set (spawned ?a1) = insert ''sudo'' (fst ` set (spawned a))"
    by (simp add: setters)
  {
    assume none: "diskMatch (source a) = None \<or> platform e \<noteq> ''darwin''"
    show eq: "validateAndBackup e a = checkSourceAndBackup e ?a1"
      using none assms by (auto simp add: validateAndBackup_def Let_def split: option.splits)
    assume "''diskutil'' \<notin> fst ` set (spawned a)"
    then show "''diskutil'' \<notin> fst ` set (spawned (validateAndBackup e a))"
      using checkSourceAndBackup_commands [of e ?a1] unfolding eq cmds by auto
  }
  {
    assume none: "diskMatch (destination a) = None \<or> platform e \<noteq> ''darwin''"
    show eq: "validateAndRestore e a = runRestore e ?a1"
      using none assms by (auto simp add: validateAndRestore_def Let_def split: option.splits)
    show "RESTORING \<in> set (visited (validateAndRestore e a))"
      by (simp add: validateAndRestore_visited [OF assms])
    assume "''diskutil'' \<notin> fst ` set (spawned a)"
    then show "''diskutil'' \<notin> fst ` set (spawned (validateAndRestore e a))"
      unfolding eq runRestore_commands cmds by auto
  }
qed

theorem no_identifier_no_unmount_witness:
  "outcome (sudoCheck envOk) = Closed (Some 0)
   \<and> diskMatch (source (appBackup\<lparr>source := ''/dev/sdb''\<rparr>)) = None
   \<and> platform (envOk\<lparr>platform := ''linux''\<rparr>) \<noteq> ''darwin''
   \<and> ''diskutil'' \<notin> fst ` set (spawned appBackup)
   \<and> ''diskutil'' \<notin> fst ` set (spawned (validateAndBackup envOk (appBackup\<lparr>source := ''/dev/sdb''\<rparr>)))
   \<and> ''diskutil'' \<notin> fst ` set (spawned (validateAndRestore (envOk\<lparr>platform := ''linux''\<rparr>) appRestore))"
proof -
  have sudo: "outcome (sudoCheck envOk) = Closed (Some 0)"
    "outcome (sudoCheck (envOk\<lparr>platform := ''linux''\<rparr>)) = Closed (Some 0)"
    by (simp_all add: envOk_def quiet_def)
  have none: "diskMatch (source (appBackup\<lparr>source := ''/dev/sdb''\<rparr>)) = None"
    by (simp add: diskMatch_sdb)
  have linux: "platform (envOk\<lparr>platform := ''linux''\<rparr>) \<noteq> ''darwin''"
    by simp
  have fresh: "''diskutil'' \<notin> fst ` set (spawned appBackup)"
    "''diskutil'' \<notin> fst ` set (spawned (appBackup\<lparr>source := ''/dev/sdb''\<rparr>))"
    "''diskutil'' \<notin> fst ` set (spawned appRestore)"
    by (simp_all add: concrete setters)
  have "''diskutil'' \<notin> fst ` set (spawned (validateAndBackup envOk (appBackup\<lparr>source := ''/dev/sdb''\<rparr>)))"
    using no_identifier_no_unmount [OF sudo(1), of "appBackup\<lparr>source := ''/dev/sdb''\<rparr>"]
      none fresh(2) by blast
  moreover
  have "''diskutil'' \<notin> fst ` set (spawned (validateAndRestore (envOk\<lparr>platform := ''linux''\<rparr>) appRestore))"
    using no_identifier_no_unmount [OF sudo(2), of appRestore] linux fresh(3) by blast
  ultimately show ?thesis
    using sudo(1) none linux fresh(1) by blast
qed





text \<open>
  C10 (amended). The callbacks of the selection screens record the inputs, and a run
  leaves them as they are. No metric is reset when a run or a copy stage starts: the only
  writes to \<open>bytesWritten\<close> and \<open>speed\<close> are those of the copy subprocess's chunks, so a run
  whose copy subprocess writes no chunk ends with the values it started with. These are
  \<open>0\<close> in the initial state of a session.
\<close>

theorem metrics_kept_at_start:
  "bytesWritten initialApp = ''0'' \<and> speed initialApp = ''0''
   \<and> (chunks (dd e) = [] \<longrightarrow>
        bytesWritten (validateAndBackup e a) = bytesWritten a
      \<and> speed (validateAndBackup e a) = speed a)
   \<and> (chunks (ddProcess e) = [] \<longrightarrow>
        bytesWritten (validateAndRestore e a) = bytesWritten a
      \<and> speed (validateAndRestore e a) = speed a)
   \<and> source (confirmStart e (selectDest d (selectSource s a))) = s
   \<and> destination (confirmStart e (selectDest d (selectSource s a))) = d
   \<and> mode (confirmStart e (selectDest d (selectSource s a))) = mode a"
  by (simp add: initialApp_def validateAndBackup_metrics validateAndRestore_metrics
        confirmStart_def selectDest_def selectSource_def setters)

theorem metrics_kept_at_start_witness:
  "chunks (dd envOk) = []
   \<and> bytesWritten (validateAndBackup envOk appBackup) = ''0''
   \<and> source (confirmStart envOk (selectDest ''/tmp/out.img'' (selectSource ''/dev/rdisk9''
        (menuSelect BACKUP initialApp)))) = ''/dev/rdisk9''"
proof -
  have none: "chunks (dd envOk) = []"
    by (simp add: envOk_def quiet_def)
  have "bytesWritten appBackup = ''0''"
    by (simp add: concrete setters)
  then have "bytesWritten (validateAndBackup envOk appBackup) = ''0''"
    using metrics_kept_at_start [of envOk appBackup] none by simp
  moreover have "source (confirmStart envOk (selectDest ''/tmp/out.img''
      (selectSource ''/dev/rdisk9'' (menuSelect BACKUP initialApp)))) = ''/dev/rdisk9''"
    using metrics_kept_at_start
      [of envOk "menuSelect BACKUP initialApp" "''/tmp/out.img''" "''/dev/rdisk9''"]
    by blast
  ultimately show ?thesis
    using none by blast
qed

text \<open>
  C10 as stated fails on the second run of a session. A first backup parses the chunk
  \<open>1048576 bytes copied\<close> and fails with exit code 1; after \<open>retry\<close> and the same
  selections, a second backup whose copy subprocess writes no chunk at all still shows
  \<open>1.0 MB\<close>, not 0.
\<close>

theorem metrics_kept_at_start_counterexample:
  "chunks (dd envOk) = []
   \<and> bytesWritten
        (validateAndBackup envOk
          (selectDest ''/tmp/out.img'' (selectSource ''/dev/rdisk9''
            (errorRetry (validateAndBackup (envOk\<lparr>dd := says ''1048576 bytes copied'' 1\<rparr>) appBackup)))))
       = ''1.0 MB''"
proof -
  let ?run1 = "validateAndBackup (envOk\<lparr>dd := says ''1048576 bytes copied'' 1\<rparr>) appBackup"
  have "bytesWritten ?run1
      = bytesWritten (snd (foldl ddData ([], appBackup) [Stderr ''1048576 bytes copied'']))"
    by (simp add: validateAndBackup_metrics envOk_def quiet_def says_def del: ddData.simps)
  also have "\<dots> = ''1.0 MB''"
    by (simp add: ddData_bytesWritten bytesMatch_one_mebibyte mbText_one_mebibyte
          del: ddData.simps)
  finally have first: "bytesWritten ?run1 = ''1.0 MB''" .
  have "bytesWritten (selectDest ''/tmp/out.img'' (selectSource ''/dev/rdisk9'' (errorRetry ?run1)))
      = ''1.0 MB''"
    by (simp add: selectDest_def selectSource_def errorRetry_def setters first)
  then show ?thesis
    by (simp add: validateAndBackup_metrics envOk_def quiet_def)
qed

end
